theory Spec2Isabelle
  imports Complex_Main "HOL-Library.Monad_Syntax"
begin

section \<open>Data model (src/lib/schemas.ts)\<close>

text \<open>
  The record shapes are the types inferred from the zod schemas of \<^verbatim>\<open>schemas.ts\<close>.
  An optional field is an \<open>option\<close>; \<open>None\<close> is JavaScript's \<^verbatim>\<open>undefined\<close>.
  Line numbers are the integers the validator lets through; strings are lists of
  characters.
\<close>

datatype ContributorType = Human | Ai | Mixed | Unknown

record Contributor =
  ctype :: ContributorType
  model_id :: "string option"

record Range =
  start_line :: int
  end_line :: int
  content_hash :: "string option"
  range_contributor :: "Contributor option"

record RelatedResource =
  rel_type :: string
  rel_url :: string

record Conversation =
  url :: "string option"
  contributor :: "Contributor option"
  ranges :: "Range list"
  related :: "RelatedResource list option"

record File =
  path :: string
  conversations :: "Conversation list"

datatype VcsType = Git | Jj | Hg | Svn

record Vcs =
  vcs_type :: VcsType
  revision :: string

record Tool =
  name :: string
  tool_version :: "string option"

text \<open>
  A JSON value as \<^verbatim>\<open>JSON.parse\<close> returns it. A number is the rational value of the
  double; an object is the list of its members in insertion order (a parsed object has
  no two members with one key).
\<close>

datatype json =
    JNull
  | JBool bool
  | JNum rat
  | JStr string
  | JArr "json list"
  | JObj "(string \<times> json) list"

record TraceRecord =
  version :: string
  rec_id :: string
  timestamp :: string
  vcs :: "Vcs option"
  tool :: "Tool option"
  files :: "File list"
  metadata :: "(string \<times> json) list option"

section \<open>Consolidation (consolidateTraces, git-notes.ts)\<close>

subsection \<open>Template strings of integers\<close>

definition digit_char :: "nat \<Rightarrow> char" where
  "digit_char d = char_of (48 + d)"

fun show_nat :: "nat \<Rightarrow> string" where
  "show_nat n = (if n < 10 then [digit_char n] else show_nat (n div 10) @ [digit_char (n mod 10)])"

declare show_nat.simps [simp del]

text \<open>\<^verbatim>\<open>`${n}`\<close> for an integral number \<open>n\<close> (below \<open>10\<^sup>2\<^sup>1\<close> in magnitude, where
  JavaScript prints plain decimal digits).\<close>

definition show_int :: "int \<Rightarrow> string" where
  "show_int i = (if i < 0 then CHR ''-'' # show_nat (nat (- i)) else show_nat (nat i))"

text \<open>\<^verbatim>\<open>`${r.start_line}-${r.end_line}`\<close>\<close>

definition rangeKey :: "Range \<Rightarrow> string" where
  "rangeKey r = show_int (start_line r) @ ''-'' @ show_int (end_line r)"

subsection \<open>Merging the ranges of two conversations\<close>

text \<open>
  The loop over \<^verbatim>\<open>conv.ranges\<close>: \<open>acc\<close> is \<^verbatim>\<open>existing.ranges\<close>, \<open>seen\<close> the set
  \<^verbatim>\<open>existingRanges\<close> of keys.
\<close>

fun push_new_ranges :: "Range list \<Rightarrow> string set \<Rightarrow> Range list \<Rightarrow> Range list" where
  "push_new_ranges acc seen [] = acc"
| "push_new_ranges acc seen (r # rs) =
     (if rangeKey r \<notin> seen
      then push_new_ranges (acc @ [r]) (insert (rangeKey r) seen) rs
      else push_new_ranges acc seen rs)"

definition merge_ranges :: "Conversation \<Rightarrow> Conversation \<Rightarrow> Conversation" where
  "merge_ranges existing conv =
     existing\<lparr>ranges := push_new_ranges (ranges existing)
                           (set (map rangeKey (ranges existing))) (ranges conv)\<rparr>"

text \<open>
  \<^verbatim>\<open>c.contributor?.type === conv.contributor?.type &&
  c.contributor?.model_id === conv.contributor?.model_id\<close>: a missing contributor and a
  missing model both read as \<^verbatim>\<open>undefined\<close>.
\<close>

definition same_contributor :: "Conversation \<Rightarrow> Conversation \<Rightarrow> bool" where
  "same_contributor c conv \<longleftrightarrow>
     map_option ctype (contributor c) = map_option ctype (contributor conv) \<and>
     Option.bind (contributor c) model_id = Option.bind (contributor conv) model_id"

text \<open>
  One pass of the loop over \<^verbatim>\<open>file.conversations\<close>: the first conversation of the entry
  with the same contributor takes the new ranges, in place; without one the conversation
  is appended.
\<close>

fun merge_conversation :: "Conversation list \<Rightarrow> Conversation \<Rightarrow> Conversation list" where
  "merge_conversation [] conv = [conv]"
| "merge_conversation (c # cs) conv =
     (if same_contributor c conv then merge_ranges c conv # cs
      else c # merge_conversation cs conv)"

definition merge_conversations :: "Conversation list \<Rightarrow> Conversation list \<Rightarrow> Conversation list" where
  "merge_conversations entry convs = foldl merge_conversation entry convs"

text \<open>
  \<^verbatim>\<open>fileMap\<close> is a \<^verbatim>\<open>Map\<close> from a path to the entry with that path; it is the list of its
  entries in insertion order, which is what \<^verbatim>\<open>Array.from(fileMap.values())\<close> returns.
\<close>

fun merge_file :: "File list \<Rightarrow> File \<Rightarrow> File list" where
  "merge_file [] f = [\<lparr>path = path f, conversations = merge_conversations [] (conversations f)\<rparr>]"
| "merge_file (e # es) f =
     (if path e = path f
      then e\<lparr>conversations := merge_conversations (conversations e) (conversations f)\<rparr> # es
      else e # merge_file es f)"

definition merge_files :: "TraceRecord list \<Rightarrow> File list" where
  "merge_files groupTraces = foldl merge_file [] (concat (map files groupTraces))"

subsection \<open>Grouping by conversation key\<close>

text \<open>
  A key of the \<^verbatim>\<open>groups\<close> map. The source types the key as a string; the value of
  \<^verbatim>\<open>metadata.conversation_id\<close> is unchecked JSON, and a \<^verbatim>\<open>Map\<close> compares a number or a
  boolean by value and an object or an array by identity, so such a key is that of the
  one record it came from (\<open>KeyRef\<close> with the record's position in the input).
\<close>

datatype conv_key = KeyStr string | KeyNum rat | KeyTrue | KeyRef nat

definition first_url :: "TraceRecord \<Rightarrow> string option" where
  "first_url t =
     (case files t of [] \<Rightarrow> None
      | f # _ \<Rightarrow> (case conversations f of [] \<Rightarrow> None | c # _ \<Rightarrow> url c))"

definition metadata_conversation_id :: "TraceRecord \<Rightarrow> json option" where
  "metadata_conversation_id t =
     (case metadata t of None \<Rightarrow> None | Some kvs \<Rightarrow> map_of kvs ''conversation_id'')"

text \<open>
  \<^verbatim>\<open>trace.files[0]?.conversations[0]?.url || trace.metadata?.conversation_id ||
  "no-conversation"\<close>; \<open>i\<close> is the position of the record in the input.
\<close>

definition metadata_key :: "nat \<Rightarrow> TraceRecord \<Rightarrow> conv_key" where
  "metadata_key i t =
     (case metadata_conversation_id t of
        Some (JStr s) \<Rightarrow> if s \<noteq> [] then KeyStr s else KeyStr ''no-conversation''
      | Some (JNum q) \<Rightarrow> if q \<noteq> 0 then KeyNum q else KeyStr ''no-conversation''
      | Some (JBool b) \<Rightarrow> if b then KeyTrue else KeyStr ''no-conversation''
      | Some (JArr _) \<Rightarrow> KeyRef i
      | Some (JObj _) \<Rightarrow> KeyRef i
      | _ \<Rightarrow> KeyStr ''no-conversation'')"

definition conversationId :: "nat \<Rightarrow> TraceRecord \<Rightarrow> conv_key" where
  "conversationId i t =
     (case first_url t of
        Some u \<Rightarrow> if u \<noteq> [] then KeyStr u else metadata_key i t
      | None \<Rightarrow> metadata_key i t)"

text \<open>\<^verbatim>\<open>groups.get(conversationId)!.push(trace)\<close>, creating the group when it is new.\<close>

fun add_to_group :: "(conv_key \<times> TraceRecord list) list \<Rightarrow> conv_key \<Rightarrow> TraceRecord
    \<Rightarrow> (conv_key \<times> TraceRecord list) list" where
  "add_to_group [] k t = [(k, [t])]"
| "add_to_group ((k', ts) # gs) k t =
     (if k' = k then (k', ts @ [t]) # gs else (k', ts) # add_to_group gs k t)"

fun group_traces :: "(conv_key \<times> TraceRecord list) list \<Rightarrow> nat \<Rightarrow> TraceRecord list
    \<Rightarrow> (conv_key \<times> TraceRecord list) list" where
  "group_traces gs i [] = gs"
| "group_traces gs i (t # ts) = group_traces (add_to_group gs (conversationId i t) t) (Suc i) ts"

text \<open>
  The body of the loop over \<^verbatim>\<open>groups.entries()\<close>. A group is never empty; the merged
  record is the first one of the group with its \<^verbatim>\<open>files\<close> replaced.
\<close>

fun consolidate_group :: "TraceRecord list \<Rightarrow> TraceRecord list" where
  "consolidate_group [] = []"
| "consolidate_group [t] = [t]"
| "consolidate_group (baseTrace # rest) =
     [baseTrace\<lparr>rec_id := rec_id baseTrace, timestamp := timestamp baseTrace,
                 files := merge_files (baseTrace # rest)\<rparr>]"

definition consolidateTraces :: "TraceRecord list \<Rightarrow> TraceRecord list" where
  "consolidateTraces traces =
     (if length traces \<le> 1 then traces
      else concat (map (\<lambda>(k, groupTraces). consolidate_group groupTraces)
                       (group_traces [] 0 traces)))"

section \<open>Validation (TraceRecordSchema, schemas.ts)\<close>

text \<open>
  \<open>None\<close> is the \<^verbatim>\<open>ZodError\<close> that \<^verbatim>\<open>parse\<close> throws. The checks \<^verbatim>\<open>uuid()\<close>,
  \<^verbatim>\<open>datetime()\<close> and \<^verbatim>\<open>url()\<close> belong to the validation library, which is not part of
  the repository: they are parameters of the schema.
\<close>

record formats =
  is_uuid :: "string \<Rightarrow> bool"
  is_datetime :: "string \<Rightarrow> bool"
  is_url :: "string \<Rightarrow> bool"

definition required :: "(json \<Rightarrow> 'a option) \<Rightarrow> (string \<times> json) list \<Rightarrow> string \<Rightarrow> 'a option" where
  "required p kvs k = (case map_of kvs k of None \<Rightarrow> None | Some v \<Rightarrow> p v)"

definition optional :: "(json \<Rightarrow> 'a option) \<Rightarrow> (string \<times> json) list \<Rightarrow> string \<Rightarrow> 'a option option" where
  "optional p kvs k = (case map_of kvs k of None \<Rightarrow> Some None | Some v \<Rightarrow> map_option Some (p v))"

definition array :: "(json \<Rightarrow> 'a option) \<Rightarrow> json \<Rightarrow> 'a list option" where
  "array p j = (case j of JArr xs \<Rightarrow> those (map p xs) | _ \<Rightarrow> None)"

definition z_string :: "json \<Rightarrow> string option" where
  "z_string j = (case j of JStr s \<Rightarrow> Some s | _ \<Rightarrow> None)"

definition z_string_where :: "(string \<Rightarrow> bool) \<Rightarrow> json \<Rightarrow> string option" where
  "z_string_where ok j = (case j of JStr s \<Rightarrow> if ok s then Some s else None | _ \<Rightarrow> None)"

text \<open>\<^verbatim>\<open>z.number().int().min(1)\<close>\<close>

definition z_line :: "json \<Rightarrow> int option" where
  "z_line j = (case j of JNum q \<Rightarrow> if of_int \<lfloor>q\<rfloor> = q \<and> 1 \<le> q then Some \<lfloor>q\<rfloor> else None
               | _ \<Rightarrow> None)"

definition ContributorTypeSchema :: "json \<Rightarrow> ContributorType option" where
  "ContributorTypeSchema j =
     (case j of
        JStr s \<Rightarrow> if s = ''human'' then Some Human else if s = ''ai'' then Some Ai
                  else if s = ''mixed'' then Some Mixed else if s = ''unknown'' then Some Unknown
                  else None
      | _ \<Rightarrow> None)"

definition ContributorSchema :: "json \<Rightarrow> Contributor option" where
  "ContributorSchema j =
     (case j of
        JObj kvs \<Rightarrow>
          do { t \<leftarrow> required ContributorTypeSchema kvs ''type'';
               m \<leftarrow> optional (z_string_where (\<lambda>s. length s \<le> 250)) kvs ''model_id'';
               Some \<lparr>ctype = t, model_id = m\<rparr> }
      | _ \<Rightarrow> None)"

definition RangeSchema :: "json \<Rightarrow> Range option" where
  "RangeSchema j =
     (case j of
        JObj kvs \<Rightarrow>
          do { s \<leftarrow> required z_line kvs ''start_line'';
               e \<leftarrow> required z_line kvs ''end_line'';
               h \<leftarrow> optional z_string kvs ''content_hash'';
               c \<leftarrow> optional ContributorSchema kvs ''contributor'';
               Some \<lparr>start_line = s, end_line = e, content_hash = h, range_contributor = c\<rparr> }
      | _ \<Rightarrow> None)"

definition RelatedResourceSchema :: "formats \<Rightarrow> json \<Rightarrow> RelatedResource option" where
  "RelatedResourceSchema fmt j =
     (case j of
        JObj kvs \<Rightarrow>
          do { t \<leftarrow> required z_string kvs ''type'';
               u \<leftarrow> required (z_string_where (is_url fmt)) kvs ''url'';
               Some \<lparr>rel_type = t, rel_url = u\<rparr> }
      | _ \<Rightarrow> None)"

definition ConversationSchema :: "formats \<Rightarrow> json \<Rightarrow> Conversation option" where
  "ConversationSchema fmt j =
     (case j of
        JObj kvs \<Rightarrow>
          do { u \<leftarrow> optional (z_string_where (is_url fmt)) kvs ''url'';
               c \<leftarrow> optional ContributorSchema kvs ''contributor'';
               rs \<leftarrow> required (array RangeSchema) kvs ''ranges'';
               rl \<leftarrow> optional (array (RelatedResourceSchema fmt)) kvs ''related'';
               Some \<lparr>url = u, contributor = c, ranges = rs, related = rl\<rparr> }
      | _ \<Rightarrow> None)"

definition FileSchema :: "formats \<Rightarrow> json \<Rightarrow> File option" where
  "FileSchema fmt j =
     (case j of
        JObj kvs \<Rightarrow>
          do { p \<leftarrow> required z_string kvs ''path'';
               cs \<leftarrow> required (array (ConversationSchema fmt)) kvs ''conversations'';
               Some \<lparr>path = p, conversations = cs\<rparr> }
      | _ \<Rightarrow> None)"

definition VcsTypeSchema :: "json \<Rightarrow> VcsType option" where
  "VcsTypeSchema j =
     (case j of
        JStr s \<Rightarrow> if s = ''git'' then Some Git else if s = ''jj'' then Some Jj
                  else if s = ''hg'' then Some Hg else if s = ''svn'' then Some Svn else None
      | _ \<Rightarrow> None)"

definition VcsSchema :: "json \<Rightarrow> Vcs option" where
  "VcsSchema j =
     (case j of
        JObj kvs \<Rightarrow>
          do { t \<leftarrow> required VcsTypeSchema kvs ''type'';
               r \<leftarrow> required z_string kvs ''revision'';
               Some \<lparr>vcs_type = t, revision = r\<rparr> }
      | _ \<Rightarrow> None)"

definition ToolSchema :: "json \<Rightarrow> Tool option" where
  "ToolSchema j =
     (case j of
        JObj kvs \<Rightarrow>
          do { n \<leftarrow> required z_string kvs ''name'';
               v \<leftarrow> optional z_string kvs ''version'';
               Some \<lparr>name = n, tool_version = v\<rparr> }
      | _ \<Rightarrow> None)"

definition is_digit :: "char \<Rightarrow> bool" where
  "is_digit c \<longleftrightarrow> (48::nat) \<le> of_char c \<and> of_char c \<le> (57::nat)"

text \<open>\<^verbatim>\<open>/^[0-9]+\.[0-9]+\.[0-9]+$/\<close>\<close>

definition is_version :: "string \<Rightarrow> bool" where
  "is_version s =
     (let a = takeWhile is_digit s; r1 = dropWhile is_digit s in
      a \<noteq> [] \<and>
      (case r1 of
         c1 # r2 \<Rightarrow> c1 = CHR ''.'' \<and>
           (let b = takeWhile is_digit r2; r3 = dropWhile is_digit r2 in
            b \<noteq> [] \<and>
            (case r3 of c2 # r4 \<Rightarrow> c2 = CHR ''.'' \<and> r4 \<noteq> [] \<and> list_all is_digit r4
             | [] \<Rightarrow> False))
       | [] \<Rightarrow> False))"

text \<open>\<^verbatim>\<open>z.record(z.string(), z.unknown())\<close>: any object.\<close>

definition z_record :: "json \<Rightarrow> (string \<times> json) list option" where
  "z_record j = (case j of JObj kvs \<Rightarrow> Some kvs | _ \<Rightarrow> None)"

definition TraceRecordSchema :: "formats \<Rightarrow> json \<Rightarrow> TraceRecord option" where
  "TraceRecordSchema fmt j =
     (case j of
        JObj kvs \<Rightarrow>
          do { v \<leftarrow> required (z_string_where is_version) kvs ''version'';
               i \<leftarrow> required (z_string_where (is_uuid fmt)) kvs ''id'';
               ts \<leftarrow> required (z_string_where (is_datetime fmt)) kvs ''timestamp'';
               vc \<leftarrow> optional VcsSchema kvs ''vcs'';
               tool0 \<leftarrow> optional ToolSchema kvs ''tool'';
               fs \<leftarrow> required (array (FileSchema fmt)) kvs ''files'';
               md \<leftarrow> optional z_record kvs ''metadata'';
               Some \<lparr>version = v, rec_id = i, timestamp = ts, vcs = vc, tool = tool0, files = fs,
                 metadata = md\<rparr> }
      | _ \<Rightarrow> None)"

subsection \<open>Serialisation\<close>

text \<open>
  The JSON value that \<^verbatim>\<open>JSON.stringify\<close> writes for a record: a field that is
  \<^verbatim>\<open>undefined\<close> is left out.
\<close>

definition opt_field :: "string \<Rightarrow> ('a \<Rightarrow> json) \<Rightarrow> 'a option \<Rightarrow> (string \<times> json) list" where
  "opt_field k enc v = (case v of None \<Rightarrow> [] | Some x \<Rightarrow> [(k, enc x)])"

definition json_of_ContributorType :: "ContributorType \<Rightarrow> json" where
  "json_of_ContributorType t =
     JStr (case t of Human \<Rightarrow> ''human'' | Ai \<Rightarrow> ''ai'' | Mixed \<Rightarrow> ''mixed'' | Unknown \<Rightarrow> ''unknown'')"

definition json_of_Contributor :: "Contributor \<Rightarrow> json" where
  "json_of_Contributor c =
     JObj ([(''type'', json_of_ContributorType (ctype c))] @ opt_field ''model_id'' JStr (model_id c))"

definition json_of_Range :: "Range \<Rightarrow> json" where
  "json_of_Range r =
     JObj ([(''start_line'', JNum (of_int (start_line r))), (''end_line'', JNum (of_int (end_line r)))]
           @ opt_field ''content_hash'' JStr (content_hash r)
           @ opt_field ''contributor'' json_of_Contributor (range_contributor r))"

definition json_of_RelatedResource :: "RelatedResource \<Rightarrow> json" where
  "json_of_RelatedResource r = JObj [(''type'', JStr (rel_type r)), (''url'', JStr (rel_url r))]"

definition json_of_Conversation :: "Conversation \<Rightarrow> json" where
  "json_of_Conversation c =
     JObj (opt_field ''url'' JStr (url c)
           @ opt_field ''contributor'' json_of_Contributor (contributor c)
           @ [(''ranges'', JArr (map json_of_Range (ranges c)))]
           @ opt_field ''related'' (\<lambda>rs. JArr (map json_of_RelatedResource rs)) (related c))"

definition json_of_File :: "File \<Rightarrow> json" where
  "json_of_File f =
     JObj [(''path'', JStr (path f)), (''conversations'', JArr (map json_of_Conversation (conversations f)))]"

definition json_of_VcsType :: "VcsType \<Rightarrow> json" where
  "json_of_VcsType t = JStr (case t of Git \<Rightarrow> ''git'' | Jj \<Rightarrow> ''jj'' | Hg \<Rightarrow> ''hg'' | Svn \<Rightarrow> ''svn'')"

definition json_of_Vcs :: "Vcs \<Rightarrow> json" where
  "json_of_Vcs v = JObj [(''type'', json_of_VcsType (vcs_type v)), (''revision'', JStr (revision v))]"

definition json_of_Tool :: "Tool \<Rightarrow> json" where
  "json_of_Tool t = JObj ([(''name'', JStr (name t))] @ opt_field ''version'' JStr (tool_version t))"

definition json_of_TraceRecord :: "TraceRecord \<Rightarrow> json" where
  "json_of_TraceRecord t =
     JObj ([(''version'', JStr (version t)), (''id'', JStr (rec_id t)), (''timestamp'', JStr (timestamp t))]
           @ opt_field ''vcs'' json_of_Vcs (vcs t)
           @ opt_field ''tool'' json_of_Tool (tool t)
           @ [(''files'', JArr (map json_of_File (files t)))]
           @ opt_field ''metadata'' JObj (metadata t))"

section \<open>The notes store (git-notes.ts)\<close>

subsection \<open>Strings\<close>

fun startsWith :: "string \<Rightarrow> string \<Rightarrow> bool" where
  "startsWith s [] = True"
| "startsWith [] (p # ps) = False"
| "startsWith (c # cs) (p # ps) = (c = p \<and> startsWith cs ps)"

fun str_includes :: "string \<Rightarrow> string \<Rightarrow> bool" where
  "str_includes [] p = (p = [])"
| "str_includes (c # cs) p = (startsWith (c # cs) p \<or> str_includes cs p)"

text \<open>White space of \<^verbatim>\<open>String.prototype.trim\<close> among the characters below 256.\<close>

definition is_space :: "char \<Rightarrow> bool" where
  "is_space c \<longleftrightarrow> of_char c \<in> {9, 10, 11, 12, 13, 32, 160 :: nat}"

definition trim :: "string \<Rightarrow> string" where
  "trim s = rev (dropWhile is_space (rev (dropWhile is_space s)))"

subsection \<open>The version-control tool\<close>

text \<open>
  The git binary is run as a subprocess and is not part of the repository. The state
  below is what the commands of \<^verbatim>\<open>git-notes.ts\<close> and \<^verbatim>\<open>git-hooks.ts\<close> read and
  change: the revisions that resolve, \<^verbatim>\<open>HEAD\<close>, the notes reference
  \<^verbatim>\<open>refs/notes/agent-trace\<close> (absent, usable, or present but unreadable), the note of each
  revision, and the staging file \<^verbatim>\<open>.agent-trace/staging.jsonl\<close>.

  A text that the code hands to \<^verbatim>\<open>JSON.parse\<close> is represented by what \<^verbatim>\<open>JSON.parse\<close>
  makes of it after \<^verbatim>\<open>trim\<close>: nothing but white space, a syntax error, or a value; what
  \<^verbatim>\<open>JSON.stringify\<close> writes parses back to the value written.
\<close>

datatype json_text = Blank | Unparseable | Doc json

datatype ref_status = RefMissing | RefValid | RefBroken

record workspace =
  commits :: "string set"
  head :: "string option"
  notes_ref :: ref_status
  note_of :: "string \<rightharpoonup> json_text"
  staging :: "json_text list option"

text \<open>
  What a \<^verbatim>\<open>catch\<close> block can see: the error of a failed subprocess with its
  \<^verbatim>\<open>status\<close> and \<^verbatim>\<open>code\<close>, the \<^verbatim>\<open>SyntaxError\<close> of \<^verbatim>\<open>JSON.parse\<close>, or an
  \<^verbatim>\<open>Error\<close> with a message.
\<close>

datatype err_code = CodeNum int | CodeStr string

datatype js_error = ExecError "int option" "err_code option" | SyntaxError | Error string

text \<open>\<^verbatim>\<open>git notes --ref refs/notes/agent-trace show <sha>\<close>: exit status 1 without a
  note, 128 when the revision or the notes tree cannot be read.\<close>

definition git_notes_show :: "workspace \<Rightarrow> string \<Rightarrow> js_error + json_text" where
  "git_notes_show w sha =
     (if sha \<notin> commits w then Inl (ExecError (Some 128) None)
      else case notes_ref w of
        RefBroken \<Rightarrow> Inl (ExecError (Some 128) None)
      | RefMissing \<Rightarrow> Inl (ExecError (Some 1) None)
      | RefValid \<Rightarrow> (case note_of w sha of None \<Rightarrow> Inl (ExecError (Some 1) None) | Some b \<Rightarrow> Inr b))"

text \<open>\<^verbatim>\<open>git notes --ref refs/notes/agent-trace add -f -F - <sha>\<close>; \<open>Inl\<close> carries the text
  of \<^verbatim>\<open>stderr\<close> of a run with a non-zero status.\<close>

definition git_notes_add_f :: "workspace \<Rightarrow> string \<Rightarrow> json_text \<Rightarrow> (string + unit) \<times> workspace" where
  "git_notes_add_f w sha content =
     (if sha \<notin> commits w then (Inl (''fatal: failed to resolve '' @ sha @ '' as a valid ref.''), w)
      else if notes_ref w = RefBroken
        then (Inl ''fatal: Failed to read notes tree referenced by refs/notes/agent-trace'', w)
      else (Inr (), w\<lparr>notes_ref := RefValid,
                      note_of := (if notes_ref w = RefValid then note_of w else Map.empty)(sha \<mapsto> content)\<rparr>))"

definition git_show_ref :: "workspace \<Rightarrow> bool" where
  "git_show_ref w \<longleftrightarrow> notes_ref w \<noteq> RefMissing"

definition git_notes_list :: "workspace \<Rightarrow> bool" where
  "git_notes_list w \<longleftrightarrow> notes_ref w \<noteq> RefBroken"

definition git_update_ref_d :: "workspace \<Rightarrow> workspace" where
  "git_update_ref_d w = w\<lparr>notes_ref := RefMissing, note_of := Map.empty\<rparr>"

text \<open>\<^verbatim>\<open>git notes add -m init HEAD\<close> followed by \<^verbatim>\<open>git notes remove HEAD\<close>, run when
  the reference does not exist and \<^verbatim>\<open>HEAD\<close> does.\<close>

definition git_notes_init_remove :: "workspace \<Rightarrow> workspace" where
  "git_notes_init_remove w = w\<lparr>notes_ref := RefValid, note_of := Map.empty\<rparr>"

text \<open>\<^verbatim>\<open>git mktree\<close> of nothing and \<^verbatim>\<open>git update-ref refs/notes/agent-trace <tree>\<close>.\<close>

definition git_update_ref_empty_tree :: "workspace \<Rightarrow> workspace" where
  "git_update_ref_empty_tree w = w\<lparr>notes_ref := RefValid, note_of := Map.empty\<rparr>"

subsection \<open>ensureNotesRef\<close>

definition ensureNotesRef :: "workspace \<Rightarrow> (js_error + unit) \<times> workspace" where
  "ensureNotesRef w =
     (let w1 = (if git_show_ref w then (if git_notes_list w then w else git_update_ref_d w) else w)
      in if git_show_ref w1 then (Inr (), w1)
         else (case head w1 of
                 Some h \<Rightarrow> (Inr (), git_notes_init_remove w1)
               | None \<Rightarrow> (Inr (), git_update_ref_empty_tree w1)))"

subsection \<open>readTracesFromNotes\<close>

text \<open>\<^verbatim>\<open>Array.isArray(parsed) ? parsed : [parsed]\<close>, then the records that pass the schema.\<close>

definition parse_records :: "formats \<Rightarrow> json \<Rightarrow> TraceRecord list" where
  "parse_records fmt parsed =
     (let records = (case parsed of JArr xs \<Rightarrow> xs | _ \<Rightarrow> [parsed])
      in List.map_filter (TraceRecordSchema fmt) records)"

text \<open>The test of the \<^verbatim>\<open>catch\<close> block: \<^verbatim>\<open>error.status === 1 || error.status === 128 ||
  error.code === 1 || error.code === 128\<close>.\<close>

definition note_not_found :: "js_error \<Rightarrow> bool" where
  "note_not_found e =
     (case e of
        ExecError st cd \<Rightarrow> st = Some 1 \<or> st = Some 128 \<or> cd = Some (CodeNum 1) \<or> cd = Some (CodeNum 128)
      | _ \<Rightarrow> False)"

text \<open>The function on the outcome of the subprocess: \<open>Inl\<close> is what it throws.\<close>

definition read_shown :: "formats \<Rightarrow> js_error + json_text \<Rightarrow> js_error + TraceRecord list" where
  "read_shown fmt shown =
     (case shown of
        Inl e \<Rightarrow> if note_not_found e then Inr [] else Inl e
      | Inr Blank \<Rightarrow> Inr []
      | Inr Unparseable \<Rightarrow> if note_not_found SyntaxError then Inr [] else Inl SyntaxError
      | Inr (Doc parsed) \<Rightarrow> Inr (parse_records fmt parsed))"

definition readTracesFromNotes :: "formats \<Rightarrow> workspace \<Rightarrow> string \<Rightarrow> js_error + TraceRecord list" where
  "readTracesFromNotes fmt w commitSha = read_shown fmt (git_notes_show w commitSha)"

subsection \<open>writeTracesToNotes\<close>

definition write_error :: "string \<Rightarrow> js_error" where
  "write_error errorMsg = Error (''Failed to write git note: '' @ trim errorMsg)"

definition writeTracesToNotes ::
    "formats \<Rightarrow> string \<Rightarrow> TraceRecord list \<Rightarrow> workspace \<Rightarrow> (js_error + unit) \<times> workspace" where
  "writeTracesToNotes fmt commitSha traces w =
     (if length traces = 0 then (Inr (), w)
      else
        let existing = (case readTracesFromNotes fmt w commitSha of Inl e \<Rightarrow> [] | Inr ts \<Rightarrow> ts);
            existingIds = set (map rec_id existing);
            newTraces = filter (\<lambda>t. rec_id t \<notin> existingIds) traces;
            allTraces = existing @ newTraces;
            consolidated = consolidateTraces allTraces;
            content = Doc (JArr (map json_of_TraceRecord consolidated));
            w1 = (case ensureNotesRef w of
                    (Inr u, w') \<Rightarrow> w'
                  | (Inl e, w') \<Rightarrow> snd (ensureNotesRef (git_update_ref_d w')))
        in case git_notes_add_f w1 commitSha content of
             (Inr u, w2) \<Rightarrow> (Inr (), w2)
           | (Inl errorMsg, w2) \<Rightarrow>
               if str_includes errorMsg ''Failed to read notes tree''
               then (case ensureNotesRef (git_update_ref_d w2) of
                       (Inl e, w3) \<Rightarrow> (Inl (write_error errorMsg), w3)
                     | (Inr u, w3) \<Rightarrow>
                         (case git_notes_add_f w3 commitSha content of
                            (Inr u', w4) \<Rightarrow> (Inr (), w4)
                          | (Inl retryMsg, w4) \<Rightarrow> (Inl (write_error errorMsg), w4)))
               else (Inl (write_error errorMsg), w2))"

section \<open>The staging buffer (attachStagingTraces, git-hooks.ts)\<close>

text \<open>The loop over the lines: a line that does not parse or does not validate is
  skipped; \<^verbatim>\<open>if (trace.vcs) trace.vcs.revision = commitSha\<close>.\<close>

fun staging_traces :: "formats \<Rightarrow> string \<Rightarrow> json_text list \<Rightarrow> TraceRecord list" where
  "staging_traces fmt commitSha [] = []"
| "staging_traces fmt commitSha (Doc parsed # ls) =
     (case TraceRecordSchema fmt parsed of
        None \<Rightarrow> staging_traces fmt commitSha ls
      | Some trace \<Rightarrow>
          trace\<lparr>vcs := map_option (\<lambda>v. v\<lparr>revision := commitSha\<rparr>) (vcs trace)\<rparr>
            # staging_traces fmt commitSha ls)"
| "staging_traces fmt commitSha (l # ls) = staging_traces fmt commitSha ls"

definition attachStagingTraces :: "formats \<Rightarrow> workspace \<Rightarrow> (js_error + unit) \<times> workspace" where
  "attachStagingTraces fmt w =
     (case staging w of
        None \<Rightarrow> (Inr (), w)
      | Some content \<Rightarrow>
          (case ensureNotesRef w of
             (Inl e, w1) \<Rightarrow> (Inl e, w1)
           | (Inr u, w1) \<Rightarrow>
               (case head w1 of
                  None \<Rightarrow> (Inr (), w1)
                | Some commitSha \<Rightarrow>
                    let lines = filter (\<lambda>line. line \<noteq> Blank) content;
                        traces = staging_traces fmt commitSha lines
                    in if length traces > 0
                       then (case writeTracesToNotes fmt commitSha traces w1 of
                               (Inl e, w2) \<Rightarrow> (Inl e, w2)
                             | (Inr u', w2) \<Rightarrow> (Inr (), w2\<lparr>staging := None\<rparr>))
                       else (Inr (), w1))))"

section \<open>The changed lines of a commit (getCommitInfo, git-utils.ts)\<close>

datatype change_type = Added | Removed | Modified

record LineChange =
  line :: int
  change_kind :: change_type

record FileChange =
  fc_path :: string
  additions :: int
  deletions :: int
  changes :: "LineChange list"

text \<open>\<^verbatim>\<open>s.split(sep)\<close> for a separator of one character: one more piece than there are
  separators.\<close>

fun split_on :: "char \<Rightarrow> string \<Rightarrow> string list" where
  "split_on sep [] = [[]]"
| "split_on sep (c # cs) =
     (if c = sep then [] # split_on sep cs
      else (case split_on sep cs of [] \<Rightarrow> [[c]] | piece # pieces \<Rightarrow> (c # piece) # pieces))"

definition digits_value :: "string \<Rightarrow> int" where
  "digits_value ds = foldl (\<lambda>a c. 10 * a + (int (of_char c) - 48)) 0 ds"

text \<open>\<^verbatim>\<open>parseInt(s, 10)\<close>: leading white space, a sign, then the longest run of digits;
  \<open>None\<close> is \<^verbatim>\<open>NaN\<close>.\<close>

definition parseInt :: "string \<Rightarrow> int option" where
  "parseInt s =
     (let t = dropWhile is_space s;
          neg = (t \<noteq> [] \<and> hd t = CHR ''-'');
          u = (if t \<noteq> [] \<and> (hd t = CHR ''-'' \<or> hd t = CHR ''+'') then tl t else t);
          ds = takeWhile is_digit u
      in if ds = [] then None else Some (if neg then - digits_value ds else digits_value ds))"

text \<open>\<^verbatim>\<open>parseInt(x, 10) || 0\<close>\<close>

definition parseInt_or_0 :: "string \<Rightarrow> int" where
  "parseInt_or_0 s = (case parseInt s of None \<Rightarrow> 0 | Some n \<Rightarrow> n)"

fun join_tab :: "string list \<Rightarrow> string" where
  "join_tab [] = []"
| "join_tab [p] = p"
| "join_tab (p # ps) = p @ [CHR 0x09] @ join_tab ps"

text \<open>The loop over the lines of \<^verbatim>\<open>git diff --numstat\<close>.\<close>

definition numstat_file :: "string \<Rightarrow> FileChange list" where
  "numstat_file dl =
     (let parts = split_on (CHR 0x09) dl in
      if length parts \<ge> 3 then
        (let p = join_tab (drop 2 parts) in
         if p \<noteq> [] \<and> p \<noteq> ''/dev/null''
         then [\<lparr>fc_path = p, additions = parseInt_or_0 (parts ! 0),
                 deletions = parseInt_or_0 (parts ! 1), changes = []\<rparr>]
         else [])
      else [])"

definition numstat_files :: "string \<Rightarrow> FileChange list" where
  "numstat_files diff =
     concat (map numstat_file (filter (\<lambda>dl. trim dl \<noteq> []) (split_on (CHR 0x0A) diff)))"

subsection \<open>The hunk header\<close>

text \<open>
  \<^verbatim>\<open>line.match(/@@ -\d+(?:,\d+)? \+(\d+)(?:,(\d+))? @@/)\<close>. After a run of digits the
  pattern asks for a character that is not a digit, so the longest run is the only match
  and no backtracking is needed. \<open>strip_prefix p s\<close> is the rest of \<open>s\<close> after \<open>p\<close>.
\<close>

fun strip_prefix :: "string \<Rightarrow> string \<Rightarrow> string option" where
  "strip_prefix [] s = Some s"
| "strip_prefix (p # ps) [] = None"
| "strip_prefix (p # ps) (c # cs) = (if p = c then strip_prefix ps cs else None)"

text \<open>\<^verbatim>\<open>(?:,\d+)?\<close>\<close>

definition skip_count :: "string \<Rightarrow> string" where
  "skip_count s =
     (case s of
        c # r \<Rightarrow> if c = CHR '','' \<and> takeWhile is_digit r \<noteq> [] then dropWhile is_digit r else s
      | [] \<Rightarrow> s)"

definition hunk_match_here :: "string \<Rightarrow> int option" where
  "hunk_match_here s =
     do { r \<leftarrow> strip_prefix ''@@ -'' s;
          r1 \<leftarrow> (if takeWhile is_digit r = [] then None else Some (dropWhile is_digit r));
          r2 \<leftarrow> strip_prefix '' +'' (skip_count r1);
          d \<leftarrow> (if takeWhile is_digit r2 = [] then None else Some (takeWhile is_digit r2));
          r3 \<leftarrow> strip_prefix '' @@'' (skip_count (dropWhile is_digit r2));
          Some (digits_value d) }"

text \<open>The first position of the line where the pattern matches; the value is
  \<^verbatim>\<open>parseInt(match[1], 10)\<close>.\<close>

fun hunk_new_start :: "string \<Rightarrow> int option" where
  "hunk_new_start [] = hunk_match_here []"
| "hunk_new_start (c # cs) =
     (case hunk_match_here (c # cs) of Some n \<Rightarrow> Some n | None \<Rightarrow> hunk_new_start cs)"

subsection \<open>The loop over the lines of the unified diff\<close>

record diff_state =
  ds_files :: "FileChange list"
  currentFile :: string
  lineNumber :: int

text \<open>\<^verbatim>\<open>files.find((f) => f.path === currentFile)\<close> and \<^verbatim>\<open>file.changes.push(c)\<close> on
  the file found; \<open>None\<close> when there is none.\<close>

fun push_change :: "FileChange list \<Rightarrow> string \<Rightarrow> LineChange \<Rightarrow> FileChange list option" where
  "push_change [] p c = None"
| "push_change (f # fs) p c =
     (if fc_path f = p then Some (f\<lparr>changes := changes f @ [c]\<rparr> # fs)
      else map_option ((#) f) (push_change fs p c))"

definition diff_line :: "diff_state \<Rightarrow> string \<Rightarrow> diff_state" where
  "diff_line st dl =
     (if startsWith dl ''+++ b/'' \<or> startsWith dl ''--- a/'' then
        (let filePath = trim (drop 6 dl) in
         if filePath \<noteq> [] \<and> filePath \<noteq> ''/dev/null''
         then st\<lparr>currentFile := filePath, lineNumber := 0\<rparr>
         else st)
      else if startsWith dl ''@@'' then
        (case hunk_new_start dl of
           Some n \<Rightarrow> st\<lparr>lineNumber := n\<rparr>
         | None \<Rightarrow> st)
      else if startsWith dl ''+'' \<and> \<not> startsWith dl ''+++'' then
        (case push_change (ds_files st) (currentFile st) \<lparr>line = lineNumber st, change_kind = Added\<rparr> of
           Some fs \<Rightarrow> st\<lparr>ds_files := fs, lineNumber := lineNumber st + 1\<rparr>
         | None \<Rightarrow> st)
      else if startsWith dl ''-'' \<and> \<not> startsWith dl ''---'' then
        (case push_change (ds_files st) (currentFile st) \<lparr>line = lineNumber st, change_kind = Removed\<rparr> of
           Some fs \<Rightarrow> st\<lparr>ds_files := fs\<rparr>
         | None \<Rightarrow> st)
      else if \<not> startsWith dl ''@'' \<and> trim dl \<noteq> [] then st\<lparr>lineNumber := lineNumber st + 1\<rparr>
      else st)"

definition parse_unified :: "FileChange list \<Rightarrow> string \<Rightarrow> FileChange list" where
  "parse_unified fs detailedDiff =
     ds_files (foldl diff_line \<lparr>ds_files = fs, currentFile = [], lineNumber = 0\<rparr>
                (split_on (CHR 0x0A) detailedDiff))"

text \<open>What the three git calls of \<^verbatim>\<open>getCommitInfo\<close> returned.\<close>

record commit_output =
  log_total :: nat
  numstat :: string
  unified :: string

definition getCommitInfo :: "string \<Rightarrow> commit_output \<Rightarrow> js_error + FileChange list" where
  "getCommitInfo commitSha out =
     (if log_total out = 0 then Inl (Error (''Commit '' @ commitSha @ '' not found''))
      else Inr (parse_unified (numstat_files (numstat out)) (unified out)))"

section \<open>The matcher (analyzeCommit, pr-analyzer.ts)\<close>




definition contributorType :: "Conversation \<Rightarrow> ContributorType" where
  "contributorType conversation =
     (case contributor conversation of None \<Rightarrow> Unknown | Some c \<Rightarrow> ctype c)"

definition modelId :: "Conversation \<Rightarrow> string option" where
  "modelId conversation = Option.bind (contributor conversation) model_id"








section \<open>The aggregator (generateReport, report-generator.ts)\<close>

record ReportStats =
  totalTraces :: nat
  totalFiles :: nat
  aiContributions :: nat
  humanContributions :: nat
  mixedContributions :: nat
  models :: "(string \<times> nat) list"
  tools :: "(string \<times> nat) list"

text \<open>\<^verbatim>\<open>m.set(k, (m.get(k) || 0) + n)\<close> on a map in insertion order.\<close>

fun add_count :: "(string \<times> nat) list \<Rightarrow> string \<Rightarrow> nat \<Rightarrow> (string \<times> nat) list" where
  "add_count [] k n = [(k, 0 + n)]"
| "add_count ((k', v) # m) k n = (if k' = k then (k', v + n) # m else (k', v) # add_count m k n)"

definition count_conversation :: "ReportStats \<Rightarrow> Conversation \<Rightarrow> ReportStats" where
  "count_conversation stats conversation =
     (let rangeCount = length (ranges conversation);
          stats1 = (case contributorType conversation of
                      Ai \<Rightarrow> stats\<lparr>aiContributions := aiContributions stats + rangeCount\<rparr>
                    | Human \<Rightarrow> stats\<lparr>humanContributions := humanContributions stats + rangeCount\<rparr>
                    | Mixed \<Rightarrow> stats\<lparr>mixedContributions := mixedContributions stats + rangeCount\<rparr>
                    | Unknown \<Rightarrow> stats)
      in case modelId conversation of
           None \<Rightarrow> stats1
         | Some m \<Rightarrow> if m \<noteq> [] then stats1\<lparr>models := add_count (models stats1) m rangeCount\<rparr>
                     else stats1)"

definition count_file :: "ReportStats \<times> string list \<Rightarrow> File \<Rightarrow> ReportStats \<times> string list" where
  "count_file acc file =
     (case acc of (stats, seen) \<Rightarrow>
        (foldl count_conversation stats (conversations file),
         if path file \<in> set seen then seen else seen @ [path file]))"

definition count_trace :: "ReportStats \<times> string list \<Rightarrow> TraceRecord \<Rightarrow> ReportStats \<times> string list" where
  "count_trace acc trace =
     (case foldl count_file acc (files trace) of (stats, seen) \<Rightarrow>
        (case tool trace of
           None \<Rightarrow> (stats, seen)
         | Some t \<Rightarrow> if name t \<noteq> [] then (stats\<lparr>tools := add_count (tools stats) (name t) 1\<rparr>, seen)
                     else (stats, seen)))"

definition generateReport :: "TraceRecord list \<Rightarrow> ReportStats" where
  "generateReport traces =
     (case foldl count_trace
             (\<lparr>totalTraces = length traces, totalFiles = 0, aiContributions = 0,
               humanContributions = 0, mixedContributions = 0, models = [], tools = []\<rparr>, [])
             traces
      of (stats, seen) \<Rightarrow> stats\<lparr>totalFiles := length seen\<rparr>)"

section \<open>Notions used in the properties\<close>

text \<open>The pair of line numbers that identifies a range.\<close>

definition range_pair :: "Range \<Rightarrow> int \<times> int" where
  "range_pair r = (start_line r, end_line r)"

text \<open>No two ranges of the conversation have the same pair.\<close>

definition dup_free :: "Conversation \<Rightarrow> bool" where
  "dup_free c \<longleftrightarrow> distinct (map range_pair (ranges c))"

definition file_dup_free :: "File \<Rightarrow> bool" where
  "file_dup_free f \<longleftrightarrow> list_all dup_free (conversations f)"

definition trace_dup_free :: "TraceRecord \<Rightarrow> bool" where
  "trace_dup_free t \<longleftrightarrow> list_all file_dup_free (files t)"

text \<open>The quantities the aggregator is described by: the conversations of a list of
  records, the number of ranges of those with a contributor type or a model, and the
  number of records of a tool.\<close>

definition trace_conversations :: "TraceRecord \<Rightarrow> Conversation list" where
  "trace_conversations t = concat (map conversations (files t))"

definition all_conversations :: "TraceRecord list \<Rightarrow> Conversation list" where
  "all_conversations ts = concat (map conversations (concat (map files ts)))"

definition type_ranges :: "ContributorType \<Rightarrow> Conversation list \<Rightarrow> nat" where
  "type_ranges t cs = sum_list (map (\<lambda>c. length (ranges c)) (filter (\<lambda>c. contributorType c = t) cs))"

definition model_ranges :: "string \<Rightarrow> Conversation list \<Rightarrow> nat" where
  "model_ranges m cs = sum_list (map (\<lambda>c. length (ranges c)) (filter (\<lambda>c. modelId c = Some m) cs))"

definition tool_count :: "string \<Rightarrow> TraceRecord list \<Rightarrow> nat" where
  "tool_count n ts = length (filter (\<lambda>t. map_option name (tool t) = Some n) ts)"

text \<open>For the proofs: the step of \<open>count_trace\<close> on the tools, the initial statistics,
  and a counter after an optional addition.\<close>

definition count_tool :: "TraceRecord \<Rightarrow> ReportStats \<Rightarrow> ReportStats" where
  "count_tool t s =
     (case tool t of
        None \<Rightarrow> s
      | Some x \<Rightarrow> if name x \<noteq> [] then s\<lparr>tools := add_count (tools s) (name x) 1\<rparr> else s)"

definition init_stats :: "nat \<Rightarrow> ReportStats" where
  "init_stats n = \<lparr>totalTraces = n, totalFiles = 0, aiContributions = 0,
               humanContributions = 0, mixedContributions = 0, models = [], tools = []\<rparr>"

definition counted :: "nat option \<Rightarrow> bool \<Rightarrow> nat \<Rightarrow> nat option" where
  "counted before hit n = (if hit then Some ((case before of None \<Rightarrow> 0 | Some v \<Rightarrow> v) + n) else before)"

text \<open>The order of two timestamps written in one format in UTC
  (\<^verbatim>\<open>YYYY-MM-DDTHH:MM:SSZ\<close>): the order of the strings.\<close>

fun earlier :: "string \<Rightarrow> string \<Rightarrow> bool" where
  "earlier [] [] = False"
| "earlier [] (b # bs) = True"
| "earlier (a # as) [] = False"
| "earlier (a # as) (b # bs) = ((of_char a :: nat) < of_char b \<or> (a = b \<and> earlier as bs))"

text \<open>The ranges of a record, and the bounds the validator checks on a range.\<close>

definition all_ranges :: "TraceRecord \<Rightarrow> Range list" where
  "all_ranges t = concat (map ranges (trace_conversations t))"

definition range_in_bounds :: "Range \<Rightarrow> bool" where
  "range_in_bounds r \<longleftrightarrow> 1 \<le> start_line r \<and> 1 \<le> end_line r"

text \<open>The kinds of line the loop over the unified diff tells apart.\<close>

definition is_file_header :: "string \<Rightarrow> bool" where
  "is_file_header dl \<longleftrightarrow> startsWith dl ''+++ b/'' \<or> startsWith dl ''--- a/''"

definition is_added_line :: "string \<Rightarrow> bool" where
  "is_added_line dl \<longleftrightarrow> startsWith dl ''+'' \<and> \<not> startsWith dl ''+++''"

definition is_removed_line :: "string \<Rightarrow> bool" where
  "is_removed_line dl \<longleftrightarrow> startsWith dl ''-'' \<and> \<not> startsWith dl ''---''"

text \<open>A line that is no file header, does not begin with \<^verbatim>\<open>@\<close>, and is neither an added
  nor a removed line.\<close>

definition is_other_line :: "string \<Rightarrow> bool" where
  "is_other_line dl \<longleftrightarrow>
     \<not> is_file_header dl \<and> \<not> startsWith dl ''@'' \<and> \<not> is_added_line dl \<and> \<not> is_removed_line dl"

fun join_lines :: "string list \<Rightarrow> string" where
  "join_lines [] = []"
| "join_lines [l] = l"
| "join_lines (l # ls) = l @ [CHR 0x0A] @ join_lines ls"







text \<open>
  For the notes store: the records \<^verbatim>\<open>writeTracesToNotes\<close> finds for a revision (none
  when reading fails); the workspace after \<^verbatim>\<open>ensureNotesRef\<close>; the note written for a
  list of records; the records of a delivery whose identifier is not stored yet; and the
  conversation keys of a list of records, the first at position \<open>i\<close>.
\<close>

definition stored_records :: "formats \<Rightarrow> workspace \<Rightarrow> string \<Rightarrow> TraceRecord list" where
  "stored_records fmt w commitSha =
     (case readTracesFromNotes fmt w commitSha of Inl e \<Rightarrow> [] | Inr ts \<Rightarrow> ts)"

definition repaired :: "workspace \<Rightarrow> workspace" where
  "repaired w = w\<lparr>notes_ref := RefValid,
                  note_of := (if notes_ref w = RefValid then note_of w else Map.empty)\<rparr>"

definition note_for :: "TraceRecord list \<Rightarrow> json_text" where
  "note_for ts = Doc (JArr (map json_of_TraceRecord ts))"

definition undelivered :: "TraceRecord list \<Rightarrow> TraceRecord list \<Rightarrow> TraceRecord list" where
  "undelivered existing traces = filter (\<lambda>t. rec_id t \<notin> set (map rec_id existing)) traces"

fun conv_keys :: "nat \<Rightarrow> TraceRecord list \<Rightarrow> conv_key list" where
  "conv_keys i [] = []"
| "conv_keys i (t # ts) = conversationId i t # conv_keys (Suc i) ts"

text \<open>For the staging buffer: the record of a line, if the line parses and validates,
  and a record with the revision of its \<^verbatim>\<open>vcs\<close> field, if it has one, replaced.\<close>

definition line_record :: "formats \<Rightarrow> json_text \<Rightarrow> TraceRecord option" where
  "line_record fmt l = (case l of Doc parsed \<Rightarrow> TraceRecordSchema fmt parsed | _ \<Rightarrow> None)"

definition set_revision :: "string \<Rightarrow> TraceRecord \<Rightarrow> TraceRecord" where
  "set_revision commitSha t = t\<lparr>vcs := map_option (\<lambda>v. v\<lparr>revision := commitSha\<rparr>) (vcs t)\<rparr>"

text \<open>What the schema asks of a record that has the record's type.\<close>

definition valid_contributor :: "Contributor \<Rightarrow> bool" where
  "valid_contributor c \<longleftrightarrow> (case model_id c of None \<Rightarrow> True | Some m \<Rightarrow> length m \<le> 250)"

definition valid_range :: "Range \<Rightarrow> bool" where
  "valid_range r \<longleftrightarrow>
     1 \<le> start_line r \<and> 1 \<le> end_line r \<and>
     (case range_contributor r of None \<Rightarrow> True | Some c \<Rightarrow> valid_contributor c)"

definition valid_related :: "formats \<Rightarrow> RelatedResource \<Rightarrow> bool" where
  "valid_related fmt x \<longleftrightarrow> is_url fmt (rel_url x)"

definition valid_conversation :: "formats \<Rightarrow> Conversation \<Rightarrow> bool" where
  "valid_conversation fmt c \<longleftrightarrow>
     (case url c of None \<Rightarrow> True | Some u \<Rightarrow> is_url fmt u) \<and>
     (case contributor c of None \<Rightarrow> True | Some k \<Rightarrow> valid_contributor k) \<and>
     list_all valid_range (ranges c) \<and>
     (case related c of None \<Rightarrow> True | Some rs \<Rightarrow> list_all (valid_related fmt) rs)"

definition valid_file :: "formats \<Rightarrow> File \<Rightarrow> bool" where
  "valid_file fmt f \<longleftrightarrow> list_all (valid_conversation fmt) (conversations f)"

definition valid_record :: "formats \<Rightarrow> TraceRecord \<Rightarrow> bool" where
  "valid_record fmt t \<longleftrightarrow>
     is_version (version t) \<and> is_uuid fmt (rec_id t) \<and> is_datetime fmt (timestamp t) \<and>
     list_all (valid_file fmt) (files t)"

text \<open>What two conversations are compared by when a file entry is merged.\<close>

definition ckey :: "Conversation \<Rightarrow> ContributorType option \<times> string option" where
  "ckey c = (map_option ctype (contributor c), Option.bind (contributor c) model_id)"

text \<open>
  For the proofs about merging a record a second time: a conversation whose ranges are
  all in the first conversation with its contributor of a list; a file whose
  conversations are all so in the entry of its path; and a file entry whose
  conversations have different contributors.
\<close>

definition conv_absorbed :: "Conversation list \<Rightarrow> Conversation \<Rightarrow> bool" where
  "conv_absorbed cs c =
     (case find (\<lambda>c'. ckey c' = ckey c) cs of
        None \<Rightarrow> False
      | Some c' \<Rightarrow> rangeKey ` set (ranges c) \<subseteq> rangeKey ` set (ranges c'))"

definition file_absorbed :: "File list \<Rightarrow> File \<Rightarrow> bool" where
  "file_absorbed es f =
     (case find (\<lambda>e. path e = path f) es of
        None \<Rightarrow> False
      | Some e \<Rightarrow> list_all (conv_absorbed (conversations e)) (conversations f))"

definition file_normal :: "File \<Rightarrow> bool" where
  "file_normal e \<longleftrightarrow> distinct (map ckey (conversations e))"

text \<open>A record is anchored when its first file entry has a conversation: this is the
  entry \<^const>\<open>first_url\<close> looks at, so merging further files into the record leaves its
  conversation key alone. \<open>merged e r\<close> is what consolidation makes of the group \<open>[e, r]\<close>:
  the first record with the files of both, and \<open>consolidated_group\<close> reads the single
  record a group is consolidated to.\<close>

definition anchored :: "TraceRecord \<Rightarrow> bool" where
  "anchored t \<longleftrightarrow> files t \<noteq> [] \<and> conversations (hd (files t)) \<noteq> []"

definition merged :: "TraceRecord \<Rightarrow> TraceRecord \<Rightarrow> TraceRecord" where
  "merged e r = e\<lparr>files := merge_files [e, r]\<rparr>"

definition consolidated_group :: "TraceRecord list \<Rightarrow> TraceRecord" where
  "consolidated_group g = hd (consolidate_group g)"

text \<open>
  For the validator: the ranges of a candidate are the elements of the \<^verbatim>\<open>ranges\<close> of the
  \<^verbatim>\<open>conversations\<close> of its \<^verbatim>\<open>files\<close>; the bounds of one are its \<^verbatim>\<open>start_line\<close> and
  \<^verbatim>\<open>end_line\<close> when both are whole numbers, and it is in bounds when both are at least 1.
  \<open>rebound g t\<close> is the record \<open>t\<close> with the bounds of every range \<open>r\<close> replaced by
  \<open>g r\<close>.
\<close>

definition json_member :: "string \<Rightarrow> json \<Rightarrow> json option" where
  "json_member k j = (case j of JObj kvs \<Rightarrow> map_of kvs k | _ \<Rightarrow> None)"

definition json_elements :: "json option \<Rightarrow> json list" where
  "json_elements v = (case v of Some (JArr xs) \<Rightarrow> xs | _ \<Rightarrow> [])"

definition candidate_conversations :: "json \<Rightarrow> json list" where
  "candidate_conversations j =
     concat (map (\<lambda>f. json_elements (json_member ''conversations'' f))
                 (json_elements (json_member ''files'' j)))"

definition candidate_ranges :: "json \<Rightarrow> json list" where
  "candidate_ranges j =
     concat (map (\<lambda>c. json_elements (json_member ''ranges'' c)) (candidate_conversations j))"

definition line_number :: "json option \<Rightarrow> int option" where
  "line_number v =
     (case v of Some (JNum q) \<Rightarrow> if of_int \<lfloor>q\<rfloor> = q then Some \<lfloor>q\<rfloor> else None | _ \<Rightarrow> None)"

definition candidate_bounds :: "json \<Rightarrow> (int \<times> int) option" where
  "candidate_bounds rj =
     (case line_number (json_member ''start_line'' rj) of
        None \<Rightarrow> None
      | Some s \<Rightarrow> (case line_number (json_member ''end_line'' rj) of
                     None \<Rightarrow> None
                   | Some e \<Rightarrow> Some (s, e)))"

definition candidate_in_bounds :: "json \<Rightarrow> bool" where
  "candidate_in_bounds rj =
     (case candidate_bounds rj of None \<Rightarrow> False | Some (s, e) \<Rightarrow> 1 \<le> s \<and> 1 \<le> e)"

definition rebound_range :: "(Range \<Rightarrow> int \<times> int) \<Rightarrow> Range \<Rightarrow> Range" where
  "rebound_range g r = r\<lparr>start_line := fst (g r), end_line := snd (g r)\<rparr>"

definition rebound :: "(Range \<Rightarrow> int \<times> int) \<Rightarrow> TraceRecord \<Rightarrow> TraceRecord" where
  "rebound g t =
     t\<lparr>files := map (\<lambda>f. f\<lparr>conversations :=
            map (\<lambda>c. c\<lparr>ranges := map (rebound_range g) (ranges c)\<rparr>) (conversations f)\<rparr>) (files t)\<rparr>"

text \<open>\<^verbatim>\<open>Array.isArray\<close> on a parsed value.\<close>

definition isArray :: "json \<Rightarrow> bool" where
  "isArray j = (case j of JArr xs \<Rightarrow> True | _ \<Rightarrow> False)"

section \<open>Example inputs\<close>

text \<open>
  Checks to stand for the library's in the examples: the shape of a UUID, of a UTC
  timestamp to the second, and of an \<^verbatim>\<open>https\<close> URL. A string they accept is accepted
  by the library's checks.
\<close>

definition is_hex :: "char \<Rightarrow> bool" where
  "is_hex c \<longleftrightarrow> is_digit c \<or> of_char c \<in> {97 ..< 103 :: nat} \<or> of_char c \<in> {65 ..< 71 :: nat}"

definition sample_uuid :: "string \<Rightarrow> bool" where
  "sample_uuid s \<longleftrightarrow>
     length s = 36 \<and>
     list_all is_hex (take 8 s) \<and> s ! 8 = CHR ''-'' \<and>
     list_all is_hex (take 4 (drop 9 s)) \<and> s ! 13 = CHR ''-'' \<and>
     list_all is_hex (take 4 (drop 14 s)) \<and> s ! 18 = CHR ''-'' \<and>
     list_all is_hex (take 4 (drop 19 s)) \<and> s ! 23 = CHR ''-'' \<and>
     list_all is_hex (drop 24 s)"

definition sample_datetime :: "string \<Rightarrow> bool" where
  "sample_datetime s \<longleftrightarrow>
     length s = 20 \<and>
     list_all is_digit (take 4 s) \<and> s ! 4 = CHR ''-'' \<and>
     list_all is_digit (take 2 (drop 5 s)) \<and> s ! 7 = CHR ''-'' \<and>
     list_all is_digit (take 2 (drop 8 s)) \<and> s ! 10 = CHR ''T'' \<and>
     list_all is_digit (take 2 (drop 11 s)) \<and> s ! 13 = CHR '':'' \<and>
     list_all is_digit (take 2 (drop 14 s)) \<and> s ! 16 = CHR '':'' \<and>
     list_all is_digit (take 2 (drop 17 s)) \<and> s ! 19 = CHR ''Z''"

definition sample_url :: "string \<Rightarrow> bool" where
  "sample_url s \<longleftrightarrow> startsWith s ''https://'' \<and> 8 < length s \<and> \<not> list_ex is_space s"

definition sample_formats :: formats where
  "sample_formats = \<lparr>is_uuid = sample_uuid, is_datetime = sample_datetime, is_url = sample_url\<rparr>"

definition ex_range :: "int \<Rightarrow> int \<Rightarrow> Range" where
  "ex_range a b = \<lparr>start_line = a, end_line = b, content_hash = None, range_contributor = None\<rparr>"

definition ex_conv :: "string option \<Rightarrow> ContributorType \<Rightarrow> Range list \<Rightarrow> Conversation" where
  "ex_conv u t rs =
     \<lparr>url = u, contributor = Some \<lparr>ctype = t, model_id = None\<rparr>, ranges = rs, related = None\<rparr>"

definition ex_record :: "string \<Rightarrow> string \<Rightarrow> File list \<Rightarrow> TraceRecord" where
  "ex_record i ts fs =
     \<lparr>version = ''1.0.0'', rec_id = i, timestamp = ts, vcs = None, tool = None, files = fs,
      metadata = None\<rparr>"



text \<open>A record whose only conversation has the contributor type \<^verbatim>\<open>unknown\<close>.\<close>

definition unknown_only :: TraceRecord where
  "unknown_only = ex_record ''0a0a0a0a-0000-4000-8000-000000000003'' ''2026-01-22T01:15:00Z''
     [\<lparr>path = ''src/a.ts'', conversations = [ex_conv None Unknown [ex_range 1 5, ex_range 7 9]]\<rparr>]"

text \<open>Two records of one conversation; the one written first was recorded a day later.\<close>

definition late_first :: TraceRecord where
  "late_first = ex_record ''0a0a0a0a-0000-4000-8000-000000000004'' ''2026-01-23T06:30:00Z''
     [\<lparr>path = ''src/a.ts'',
       conversations = [ex_conv (Some ''https://example.com/c/7'') Ai [ex_range 1 50]]\<rparr>]"

definition early_second :: TraceRecord where
  "early_second = ex_record ''0a0a0a0a-0000-4000-8000-000000000005'' ''2026-01-22T01:15:00Z''
     [\<lparr>path = ''src/a.ts'',
       conversations = [ex_conv (Some ''https://example.com/c/7'') Ai [ex_range 52 100]]\<rparr>]"

text \<open>A candidate whose range ends before it starts, and one with two ordinary ranges.\<close>

definition backwards_json :: json where
  "backwards_json =
     JObj [(''version'', JStr ''1.0.0''),
           (''id'', JStr ''0a0a0a0a-0000-4000-8000-000000000006''),
           (''timestamp'', JStr ''2026-01-22T01:15:00Z''),
           (''files'', JArr [JObj [(''path'', JStr ''src/a.ts''),
              (''conversations'', JArr [JObj [(''contributor'', JObj [(''type'', JStr ''ai'')]),
                 (''ranges'', JArr [JObj [(''start_line'', JNum 5), (''end_line'', JNum 3)]])]])]])]"

definition forward_json :: json where
  "forward_json =
     JObj [(''version'', JStr ''1.0.0''),
           (''id'', JStr ''0a0a0a0a-0000-4000-8000-000000000007''),
           (''timestamp'', JStr ''2026-01-22T01:15:00Z''),
           (''files'', JArr [JObj [(''path'', JStr ''src/a.ts''),
              (''conversations'', JArr [JObj [(''contributor'', JObj [(''type'', JStr ''ai'')]),
                 (''ranges'', JArr [JObj [(''start_line'', JNum 1), (''end_line'', JNum 50)],
                                    JObj [(''start_line'', JNum 52), (''end_line'', JNum 52)]])]])]])]"

text \<open>A repository with one commit, a usable notes reference and no note.\<close>

definition fresh_workspace :: workspace where
  "fresh_workspace = \<lparr>commits = {''c0ffee1''}, head = Some ''c0ffee1'', notes_ref = RefValid,
     note_of = Map.empty, staging = None\<rparr>"

text \<open>What git prints for a commit that renames \<^verbatim>\<open>old.ts\<close> to \<^verbatim>\<open>new.ts\<close> and changes
  its third line: \<^verbatim>\<open>--numstat\<close> names the file \<^verbatim>\<open>old.ts => new.ts\<close>, the diff names
  it \<^verbatim>\<open>new.ts\<close>.\<close>

definition rename_output :: commit_output where
  "rename_output = \<lparr>log_total = 1,
     numstat = ''1'' @ [CHR 0x09] @ ''1'' @ [CHR 0x09] @ ''old.ts => new.ts'',
     unified = join_lines [''diff --git a/old.ts b/new.ts'', ''similarity index 90%'',
       ''rename from old.ts'', ''rename to new.ts'', ''--- a/old.ts'', ''+++ b/new.ts'',
       ''@@ -3 +3 @@'', ''-foo'', ''+bar'']\<rparr>"

definition renamed_file :: FileChange where
  "renamed_file = \<lparr>fc_path = ''old.ts => new.ts'', additions = 1, deletions = 1, changes = []\<rparr>"

text \<open>The state of the loop inside a hunk of \<^verbatim>\<open>src/a.ts\<close> that starts at line 3.\<close>

definition listed_file :: FileChange where
  "listed_file = \<lparr>fc_path = ''src/a.ts'', additions = 2, deletions = 1, changes = []\<rparr>"

definition in_hunk :: diff_state where
  "in_hunk = \<lparr>ds_files = [listed_file], currentFile = ''src/a.ts'', lineNumber = 3\<rparr>"






text \<open>
  Staged records: \<open>staged_a\<close> and \<open>staged_b\<close> have no conversation URL and no
  conversation identifier in their metadata, \<open>staged_c\<close> is \<open>staged_b\<close> with a
  conversation URL. Each buffer holds two valid lines and one that does not parse.
\<close>

definition staged_a :: TraceRecord where
  "staged_a = \<lparr>version = ''1.0.0'', rec_id = ''0a0a0a0a-0000-4000-8000-00000000000a'',
     timestamp = ''2026-01-22T01:15:00Z'', vcs = Some \<lparr>vcs_type = Git, revision = ''0000000''\<rparr>,
     tool = Some \<lparr>name = ''cursor'', tool_version = None\<rparr>,
     files = [\<lparr>path = ''src/a.ts'', conversations = [ex_conv None Ai [ex_range 1 5]]\<rparr>],
     metadata = None\<rparr>"

definition staged_b :: TraceRecord where
  "staged_b = \<lparr>version = ''1.0.0'', rec_id = ''0a0a0a0a-0000-4000-8000-00000000000b'',
     timestamp = ''2026-01-22T01:20:00Z'', vcs = None,
     tool = Some \<lparr>name = ''cursor'', tool_version = None\<rparr>,
     files = [\<lparr>path = ''src/b.ts'', conversations = [ex_conv None Ai [ex_range 1 9]]\<rparr>],
     metadata = None\<rparr>"

definition staged_c :: TraceRecord where
  "staged_c = staged_b\<lparr>files :=
     [\<lparr>path = ''src/b.ts'',
       conversations = [ex_conv (Some ''https://example.com/c/9'') Ai [ex_range 1 9]]\<rparr>]\<rparr>"

definition staged_same :: workspace where
  "staged_same = fresh_workspace\<lparr>staging :=
     Some [Doc (json_of_TraceRecord staged_a), Doc (json_of_TraceRecord staged_b), Unparseable]\<rparr>"

definition staged_apart :: workspace where
  "staged_apart = fresh_workspace\<lparr>staging :=
     Some [Doc (json_of_TraceRecord staged_a), Unparseable, Doc (json_of_TraceRecord staged_c)]\<rparr>"

text \<open>A revision whose note holds one record without a conversation in its first file
  entry, a record that names a conversation only in its second file entry, and a revision
  whose note holds one record of a conversation.\<close>

definition drift_a :: TraceRecord where
  "drift_a = ex_record ''0a0a0a0a-0000-4000-8000-00000000000c'' ''2026-01-22T01:15:00Z''
     [\<lparr>path = ''src/p.ts'', conversations = []\<rparr>]"

definition drift_r :: TraceRecord where
  "drift_r = ex_record ''0a0a0a0a-0000-4000-8000-00000000000d'' ''2026-01-22T01:20:00Z''
     [\<lparr>path = ''src/q.ts'', conversations = []\<rparr>,
      \<lparr>path = ''src/p.ts'',
       conversations = [ex_conv (Some ''https://example.com/c/3'') Ai [ex_range 1 1]]\<rparr>]"

definition drift_workspace :: workspace where
  "drift_workspace = fresh_workspace\<lparr>note_of := [''c0ffee1'' \<mapsto> note_for [drift_a]]\<rparr>"

definition session_workspace :: workspace where
  "session_workspace = fresh_workspace\<lparr>note_of := [''c0ffee1'' \<mapsto> note_for [late_first]]\<rparr>"

text \<open>The records of the candidates \<open>forward_json\<close> and \<open>backwards_json\<close>, a candidate
  with two ranges of which the second has the given bounds, and the bounds of a range the
  other way round.\<close>

definition forward_record :: TraceRecord where
  "forward_record = ex_record ''0a0a0a0a-0000-4000-8000-000000000007'' ''2026-01-22T01:15:00Z''
     [\<lparr>path = ''src/a.ts'', conversations = [ex_conv None Ai [ex_range 1 50, ex_range 52 52]]\<rparr>]"

definition backwards_record :: TraceRecord where
  "backwards_record = ex_record ''0a0a0a0a-0000-4000-8000-000000000006'' ''2026-01-22T01:15:00Z''
     [\<lparr>path = ''src/a.ts'', conversations = [ex_conv None Ai [ex_range 5 3]]\<rparr>]"

definition ex_candidate :: "json \<Rightarrow> json \<Rightarrow> json" where
  "ex_candidate s e =
     JObj [(''version'', JStr ''1.0.0''),
           (''id'', JStr ''0a0a0a0a-0000-4000-8000-00000000000f''),
           (''timestamp'', JStr ''2026-01-22T01:15:00Z''),
           (''files'', JArr [JObj [(''path'', JStr ''src/a.ts''),
              (''conversations'', JArr [JObj [(''contributor'', JObj [(''type'', JStr ''ai'')]),
                 (''ranges'', JArr [JObj [(''start_line'', JNum 1), (''end_line'', JNum 2)],
                                    JObj [(''start_line'', s), (''end_line'', e)]])]])]])]"

definition reversed :: "Range \<Rightarrow> int \<times> int" where
  "reversed r = (end_line r, start_line r)"

text \<open>A repository whose one commit has the given note, and the same with a notes reference
  that cannot be read.\<close>

definition note_workspace :: "json_text \<Rightarrow> workspace" where
  "note_workspace b = fresh_workspace\<lparr>note_of := [''c0ffee1'' \<mapsto> b]\<rparr>"

definition broken_workspace :: workspace where
  "broken_workspace = (note_workspace (Doc forward_json))\<lparr>notes_ref := RefBroken\<rparr>"




section \<open>Lemmas\<close>

subsection \<open>Range keys\<close>

lemma digit_char_inj: "a < 10 \<Longrightarrow> b < 10 \<Longrightarrow> digit_char a = digit_char b \<Longrightarrow> a = b"
proof -
  assume a: "a < 10" and b: "b < 10" and e: "digit_char a = digit_char b"
  from e have "(of_char (digit_char a) :: nat) = of_char (digit_char b)" by simp
  with a b show ?thesis by (simp add: digit_char_def)
qed

lemma is_digit_digit_char: "d < 10 \<Longrightarrow> is_digit (digit_char d)"
  by (simp add: is_digit_def digit_char_def)

lemma show_nat_digits: "list_all is_digit (show_nat n)"
proof (induction n rule: show_nat.induct)
  case (1 n)
  show ?case
  proof (cases "n < 10")
    case True
    then show ?thesis by (subst show_nat.simps) (simp add: is_digit_digit_char)
  next
    case False
    with 1 show ?thesis by (subst show_nat.simps) (simp add: is_digit_digit_char)
  qed
qed

lemma show_nat_nonempty: "show_nat n \<noteq> []"
  by (subst show_nat.simps) simp

lemma show_nat_small: "n < 10 \<Longrightarrow> show_nat n = [digit_char n]"
  by (subst show_nat.simps) simp

lemma show_nat_big: "\<not> n < 10 \<Longrightarrow> show_nat n = show_nat (n div 10) @ [digit_char (n mod 10)]"
  by (subst show_nat.simps) simp

lemma show_nat_inj: "show_nat n = show_nat m \<Longrightarrow> n = m"
proof (induction n arbitrary: m rule: show_nat.induct)
  case (1 n)
  show ?case
  proof (cases "n < 10")
    case True
    note n = this
    show ?thesis
    proof (cases "m < 10")
      case True
      with n 1(2) show ?thesis by (simp add: show_nat_small digit_char_inj)
    next
      case False
      from 1(2) have "length (show_nat n) = length (show_nat m)" by simp
      with n False show ?thesis
        using show_nat_nonempty [of "m div 10"] by (simp add: show_nat_small show_nat_big)
    qed
  next
    case False
    note n = this
    show ?thesis
    proof (cases "m < 10")
      case True
      from 1(2) have "length (show_nat n) = length (show_nat m)" by simp
      with n True show ?thesis
        using show_nat_nonempty [of "n div 10"] by (simp add: show_nat_small show_nat_big)
    next
      case False
      with n 1(2) have e: "show_nat (n div 10) @ [digit_char (n mod 10)] = show_nat (m div 10) @ [digit_char (m mod 10)]"
        by (simp add: show_nat_big)
      then have "show_nat (n div 10) = show_nat (m div 10)" and d: "digit_char (n mod 10) = digit_char (m mod 10)"
        by simp_all
      with 1(1) n have "n div 10 = m div 10" by simp
      moreover from d have "n mod 10 = m mod 10" by (simp add: digit_char_inj)
      ultimately show ?thesis by (metis div_mult_mod_eq)
    qed
  qed
qed

lemma minus_not_digit: "\<not> is_digit (CHR ''-'')"
  by (simp add: is_digit_def)

lemma digits_then_minus:
  assumes "list_all is_digit ds" "list_all is_digit es" "ds @ CHR ''-'' # xs = es @ CHR ''-'' # ys"
  shows "ds = es \<and> xs = ys"
proof -
  have t: "\<And>zs rest. list_all is_digit zs \<Longrightarrow> takeWhile is_digit (zs @ CHR ''-'' # rest) = zs"
    by (simp add: list_all_iff minus_not_digit)
  have d: "\<And>zs rest. list_all is_digit zs \<Longrightarrow> dropWhile is_digit (zs @ CHR ''-'' # rest) = CHR ''-'' # rest"
    by (simp add: list_all_iff minus_not_digit)
  from assms(3) have "takeWhile is_digit (ds @ CHR ''-'' # xs) = takeWhile is_digit (es @ CHR ''-'' # ys)"
    and "dropWhile is_digit (ds @ CHR ''-'' # xs) = dropWhile is_digit (es @ CHR ''-'' # ys)" by simp_all
  with assms(1,2) show ?thesis by (simp add: t d)
qed

lemma show_nat_hd_digit: "is_digit (hd (show_nat n))"
  using show_nat_digits [of n] show_nat_nonempty [of n] by (cases "show_nat n") simp_all

lemma show_nat_not_minus: "show_nat n \<noteq> CHR ''-'' # xs"
  using show_nat_hd_digit [of n] minus_not_digit by (cases "show_nat n") auto

lemma show_int_inj: "show_int a = show_int b \<Longrightarrow> a = b"
  using show_nat_not_minus show_nat_not_minus [symmetric]
  by (auto simp: show_int_def split: if_splits dest!: show_nat_inj)

lemma rangeKey_eq_iff:
  "rangeKey r = rangeKey r' \<longleftrightarrow> start_line r = start_line r' \<and> end_line r = end_line r'"
proof
  assume e: "rangeKey r = rangeKey r'"
  let ?a = "start_line r" and ?c = "start_line r'"
  have "show_int ?a = show_int ?c \<and> show_int (end_line r) = show_int (end_line r')"
  proof (cases "?a < 0")
    case True
    note a = this
    show ?thesis
    proof (cases "?c < 0")
      case True
      with a e have "show_nat (nat (- ?a)) @ CHR ''-'' # show_int (end_line r)
          = show_nat (nat (- ?c)) @ CHR ''-'' # show_int (end_line r')"
        by (simp add: rangeKey_def show_int_def)
      from digits_then_minus [OF show_nat_digits show_nat_digits this] a True
      show ?thesis by (simp add: show_int_def)
    next
      case False
      with a e have "CHR ''-'' # show_nat (nat (- ?a)) @ CHR ''-'' # show_int (end_line r)
          = show_nat (nat ?c) @ CHR ''-'' # show_int (end_line r')"
        by (simp add: rangeKey_def show_int_def)
      then have "hd (show_nat (nat ?c) @ CHR ''-'' # show_int (end_line r')) = CHR ''-''"
        by (metis list.sel(1))
      with show_nat_hd_digit [of "nat ?c"] show_nat_nonempty [of "nat ?c"] minus_not_digit
      show ?thesis by (simp add: hd_append)
    qed
  next
    case False
    note a = this
    show ?thesis
    proof (cases "?c < 0")
      case True
      with a e have "show_nat (nat ?a) @ CHR ''-'' # show_int (end_line r)
          = CHR ''-'' # show_nat (nat (- ?c)) @ CHR ''-'' # show_int (end_line r')"
        by (simp add: rangeKey_def show_int_def)
      then have "hd (show_nat (nat ?a) @ CHR ''-'' # show_int (end_line r)) = CHR ''-''"
        by (metis list.sel(1))
      with show_nat_hd_digit [of "nat ?a"] show_nat_nonempty [of "nat ?a"] minus_not_digit
      show ?thesis by (simp add: hd_append)
    next
      case False
      with a e have "show_nat (nat ?a) @ CHR ''-'' # show_int (end_line r)
          = show_nat (nat ?c) @ CHR ''-'' # show_int (end_line r')"
        by (simp add: rangeKey_def show_int_def)
      from digits_then_minus [OF show_nat_digits show_nat_digits this] a False
      show ?thesis by (simp add: show_int_def)
    qed
  qed
  then show "start_line r = start_line r' \<and> end_line r = end_line r'"
    by (auto dest: show_int_inj)
next
  assume "start_line r = start_line r' \<and> end_line r = end_line r'"
  then show "rangeKey r = rangeKey r'" by (simp add: rangeKey_def)
qed


lemma distinct_map_cong_iff:
  "(\<And>x y. f x = f y \<longleftrightarrow> g x = g y) \<Longrightarrow> distinct (map f xs) = distinct (map g xs)"
proof (induction xs)
  case Nil
  show ?case by simp
next
  case (Cons x xs)
  have "f x \<in> f ` set xs \<longleftrightarrow> g x \<in> g ` set xs"
    using Cons.prems by (auto simp: image_iff)
  with Cons show ?case by simp
qed

lemma distinct_pairs_keys:
  "distinct (map range_pair rs) = distinct (map rangeKey rs)"
  by (rule distinct_map_cong_iff) (auto simp: rangeKey_eq_iff range_pair_def)

lemma push_new_ranges_keys:
  "rangeKey ` set (push_new_ranges acc seen rs) = rangeKey ` set acc \<union> (rangeKey ` set rs - seen)"
  by (induction rs arbitrary: acc seen) auto

lemma push_new_ranges_distinct:
  "distinct (map rangeKey acc) \<Longrightarrow> set (map rangeKey acc) \<subseteq> seen
     \<Longrightarrow> distinct (map rangeKey (push_new_ranges acc seen rs))"
proof (induction rs arbitrary: acc seen)
  case Nil
  then show ?case by simp
next
  case (Cons r rs)
  show ?case
  proof (cases "rangeKey r \<in> seen")
    case True
    with Cons show ?thesis by simp
  next
    case False
    with Cons.prems have "distinct (map rangeKey (acc @ [r]))"
      and "set (map rangeKey (acc @ [r])) \<subseteq> insert (rangeKey r) seen" by auto
    from Cons.IH [OF this] False show ?thesis by simp
  qed
qed

lemma push_new_ranges_prefix:
  "\<exists>added. push_new_ranges acc seen rs = acc @ added \<and> set added \<subseteq> set rs"
proof (induction rs arbitrary: acc seen)
  case Nil
  show ?case by simp
next
  case (Cons r rs)
  show ?case
  proof (cases "rangeKey r \<in> seen")
    case True
    with Cons [of acc seen] show ?thesis by auto
  next
    case False
    from Cons [of "acc @ [r]" "insert (rangeKey r) seen"]
    obtain added where "push_new_ranges (acc @ [r]) (insert (rangeKey r) seen) rs = (acc @ [r]) @ added"
      and "set added \<subseteq> set rs" by blast
    with False show ?thesis by (intro exI [of _ "r # added"]) auto
  qed
qed

lemma merge_ranges_dup_free: "dup_free existing \<Longrightarrow> dup_free (merge_ranges existing conv)"
  by (simp add: dup_free_def merge_ranges_def distinct_pairs_keys push_new_ranges_distinct)

lemma merge_conversation_dup_free:
  "list_all dup_free cs \<Longrightarrow> dup_free conv \<Longrightarrow> list_all dup_free (merge_conversation cs conv)"
  by (induction cs) (auto simp: merge_ranges_dup_free)

lemma merge_conversations_dup_free:
  "list_all dup_free cs \<Longrightarrow> list_all dup_free convs \<Longrightarrow> list_all dup_free (merge_conversations cs convs)"
  unfolding merge_conversations_def
  by (induction convs arbitrary: cs) (auto simp: merge_conversation_dup_free)

lemma merge_file_dup_free:
  "list_all file_dup_free es \<Longrightarrow> file_dup_free f \<Longrightarrow> list_all file_dup_free (merge_file es f)"
  by (induction es) (auto simp: file_dup_free_def merge_conversations_dup_free)

lemma foldl_merge_file_dup_free:
  "list_all file_dup_free es \<Longrightarrow> list_all file_dup_free fs \<Longrightarrow> list_all file_dup_free (foldl merge_file es fs)"
  by (induction fs arbitrary: es) (auto simp: merge_file_dup_free)

lemma merge_files_dup_free:
  "list_all trace_dup_free ts \<Longrightarrow> list_all file_dup_free (merge_files ts)"
  unfolding merge_files_def
  by (rule foldl_merge_file_dup_free) (auto simp: list_all_iff trace_dup_free_def)

lemma consolidate_group_dup_free:
  "list_all trace_dup_free ts \<Longrightarrow> list_all trace_dup_free (consolidate_group ts)"
proof (cases ts rule: consolidate_group.cases)
  case 1 then show ?thesis by simp
next
  case (2 t) then show "list_all trace_dup_free ts \<Longrightarrow> ?thesis" by simp
next
  case (3 b v va)
  assume a: "list_all trace_dup_free ts"
  from merge_files_dup_free [OF a] 3 show ?thesis by (simp add: trace_dup_free_def)
qed

lemma add_to_group_members:
  "(\<Union>g\<in>set (add_to_group gs k t). set (snd g)) = insert t (\<Union>g\<in>set gs. set (snd g))"
  by (induction gs k t rule: add_to_group.induct) auto

lemma group_traces_members:
  "(\<Union>g\<in>set (group_traces gs i ts). set (snd g)) = (\<Union>g\<in>set gs. set (snd g)) \<union> set ts"
  by (induction gs i ts rule: group_traces.induct) (simp_all add: add_to_group_members)

lemma consolidateTraces_dup_free:
  assumes "list_all trace_dup_free traces"
  shows "list_all trace_dup_free (consolidateTraces traces)"
proof (cases "length traces \<le> 1")
  case True
  with assms show ?thesis by (simp add: consolidateTraces_def)
next
  case False
  have "\<And>k g. (k, g) \<in> set (group_traces [] 0 traces) \<Longrightarrow> list_all trace_dup_free g"
  proof -
    fix k g assume "(k, g) \<in> set (group_traces [] 0 traces)"
    then have "set g \<subseteq> (\<Union>g\<in>set (group_traces [] 0 traces). set (snd g))" by force
    then have "set g \<subseteq> set traces" by (simp add: group_traces_members)
    with assms show "list_all trace_dup_free g"
      by (auto simp: list_all_iff)
  qed
  then have "\<And>k g. (k, g) \<in> set (group_traces [] 0 traces) \<Longrightarrow> list_all trace_dup_free (consolidate_group g)"
    by (rule consolidate_group_dup_free)
  with False show ?thesis
    by (auto simp: consolidateTraces_def list_all_iff)
qed


subsection \<open>The aggregator\<close>

lemma map_of_add_count:
  "map_of (add_count m k n) k' =
     (if k' = k then Some ((case map_of m k of None \<Rightarrow> 0 | Some v \<Rightarrow> v) + n) else map_of m k')"
  by (induction m k n rule: add_count.induct) auto

lemma count_conversation_ai:
  "aiContributions (count_conversation s c)
     = aiContributions s + (if contributorType c = Ai then length (ranges c) else 0)"
  by (simp add: count_conversation_def Let_def split: ContributorType.split option.split)

lemma count_conversation_human:
  "humanContributions (count_conversation s c)
     = humanContributions s + (if contributorType c = Human then length (ranges c) else 0)"
  by (simp add: count_conversation_def Let_def split: ContributorType.split option.split)

lemma count_conversation_mixed:
  "mixedContributions (count_conversation s c)
     = mixedContributions s + (if contributorType c = Mixed then length (ranges c) else 0)"
  by (simp add: count_conversation_def Let_def split: ContributorType.split option.split)

lemma count_conversation_frame:
  "tools (count_conversation s c) = tools s \<and> totalTraces (count_conversation s c) = totalTraces s"
  by (simp add: count_conversation_def Let_def split: ContributorType.split option.split)

lemma count_conversation_models:
  "map_of (models (count_conversation s c)) m =
     (if m \<noteq> [] \<and> modelId c = Some m
      then Some ((case map_of (models s) m of None \<Rightarrow> 0 | Some v \<Rightarrow> v) + length (ranges c))
      else map_of (models s) m)"
  by (auto simp: count_conversation_def Let_def map_of_add_count split: ContributorType.split option.split)

lemma foldl_count_conversation_ai:
  "aiContributions (foldl count_conversation s cs) = aiContributions s + type_ranges Ai cs"
  by (induction cs arbitrary: s) (simp_all add: type_ranges_def count_conversation_ai)

lemma foldl_count_conversation_human:
  "humanContributions (foldl count_conversation s cs) = humanContributions s + type_ranges Human cs"
  by (induction cs arbitrary: s) (simp_all add: type_ranges_def count_conversation_human)

lemma foldl_count_conversation_mixed:
  "mixedContributions (foldl count_conversation s cs) = mixedContributions s + type_ranges Mixed cs"
  by (induction cs arbitrary: s) (simp_all add: type_ranges_def count_conversation_mixed)

lemma foldl_count_conversation_frame:
  "tools (foldl count_conversation s cs) = tools s \<and> totalTraces (foldl count_conversation s cs) = totalTraces s"
  by (induction cs arbitrary: s) (simp_all add: count_conversation_frame)

lemma counted_counted:
  "counted (counted b h1 n1) h2 n2 = counted b (h1 \<or> h2) ((if h1 then n1 else 0) + (if h2 then n2 else 0))"
  by (auto simp: counted_def split: option.split)

lemma model_ranges_none: "\<not> list_ex (\<lambda>c. modelId c = Some m) cs \<Longrightarrow> model_ranges m cs = 0"
  by (induction cs) (auto simp: model_ranges_def)

lemma model_ranges_Cons:
  "model_ranges m (c # cs) = (if modelId c = Some m then length (ranges c) else 0) + model_ranges m cs"
  by (simp add: model_ranges_def)

lemma foldl_count_conversation_models:
  "map_of (models (foldl count_conversation s cs)) m =
     counted (map_of (models s) m) (m \<noteq> [] \<and> list_ex (\<lambda>c. modelId c = Some m) cs) (model_ranges m cs)"
proof (induction cs arbitrary: s)
  case Nil
  show ?case by (simp add: counted_def model_ranges_def)
next
  case (Cons c cs)
  have 1: "map_of (models (count_conversation s c)) m
      = counted (map_of (models s) m) (m \<noteq> [] \<and> modelId c = Some m) (length (ranges c))"
    by (simp add: count_conversation_models counted_def)
  show ?case
  proof (cases "m = []")
    case True
    with Cons [of "count_conversation s c"] 1 show ?thesis by (simp add: counted_def)
  next
    case False
    have "map_of (models (foldl count_conversation s (c # cs))) m
        = counted (map_of (models s) m) (modelId c = Some m \<or> list_ex (\<lambda>c. modelId c = Some m) cs)
            ((if modelId c = Some m then length (ranges c) else 0)
             + (if list_ex (\<lambda>c. modelId c = Some m) cs then model_ranges m cs else 0))"
      using Cons [of "count_conversation s c"] 1 False by (simp add: counted_counted)
    also have "(if list_ex (\<lambda>c. modelId c = Some m) cs then model_ranges m cs else 0) = model_ranges m cs"
      by (simp add: model_ranges_none)
    finally show ?thesis using False by (simp add: model_ranges_Cons)
  qed
qed

lemma count_file_fst:
  "fst (count_file (s, seen) f) = foldl count_conversation s (conversations f)"
  by (simp add: count_file_def)

lemma count_file_snd:
  "snd (count_file (s, seen) f) = (if path f \<in> set seen then seen else seen @ [path f])"
  by (simp add: count_file_def)

lemma foldl_count_file_seen:
  "set (snd (foldl count_file acc fs)) = set (snd acc) \<union> path ` set fs
   \<and> (distinct (snd acc) \<longrightarrow> distinct (snd (foldl count_file acc fs)))"
proof (induction fs arbitrary: acc)
  case Nil
  show ?case by simp
next
  case (Cons f fs)
  obtain s seen where acc: "acc = (s, seen)" by (cases acc)
  from Cons [of "count_file acc f"] show ?case
    by (auto simp: acc count_file_snd)
qed

lemma foldl_count_file_fst:
  "fst (foldl count_file acc fs) = foldl count_conversation (fst acc) (concat (map conversations fs))"
proof (induction fs arbitrary: acc)
  case Nil
  show ?case by simp
next
  case (Cons f fs)
  obtain s seen where acc: "acc = (s, seen)" by (cases acc)
  from Cons [of "count_file acc f"] show ?case by (simp add: acc count_file_fst)
qed

lemma count_trace_fst:
  "fst (count_trace acc t) = count_tool t (foldl count_conversation (fst acc) (trace_conversations t))"
proof -
  obtain s seen where f: "foldl count_file acc (files t) = (s, seen)" by (cases "foldl count_file acc (files t)")
  then have "s = foldl count_conversation (fst acc) (trace_conversations t)"
    using foldl_count_file_fst [of acc "files t"] by (simp add: trace_conversations_def)
  with f show ?thesis
    by (simp add: count_trace_def count_tool_def split: option.split)
qed

lemma count_trace_snd: "snd (count_trace acc t) = snd (foldl count_file acc (files t))"
  by (cases "foldl count_file acc (files t)") (simp add: count_trace_def split: option.split)

lemma count_tool_fields:
  "aiContributions (count_tool t s) = aiContributions s"
  "humanContributions (count_tool t s) = humanContributions s"
  "mixedContributions (count_tool t s) = mixedContributions s"
  "models (count_tool t s) = models s"
  "totalTraces (count_tool t s) = totalTraces s"
  by (simp_all add: count_tool_def split: option.split)

lemma count_tool_tools:
  "map_of (tools (count_tool t s)) n =
     counted (map_of (tools s) n) (n \<noteq> [] \<and> map_option name (tool t) = Some n) 1"
  by (auto simp: count_tool_def counted_def map_of_add_count split: option.split)

lemma all_conversations_Cons:
  "all_conversations (t # ts) = trace_conversations t @ all_conversations ts"
  by (simp add: all_conversations_def trace_conversations_def)

lemma type_ranges_append: "type_ranges k (xs @ ys) = type_ranges k xs + type_ranges k ys"
  by (simp add: type_ranges_def)

lemma model_ranges_append: "model_ranges m (xs @ ys) = model_ranges m xs + model_ranges m ys"
  by (simp add: model_ranges_def)

lemma foldl_count_trace_ai:
  "aiContributions (fst (foldl count_trace acc ts))
     = aiContributions (fst acc) + type_ranges Ai (all_conversations ts)"
proof (induction ts arbitrary: acc)
  case Nil
  show ?case by (simp add: all_conversations_def type_ranges_def)
next
  case (Cons t ts)
  from Cons [of "count_trace acc t"] show ?case
    by (simp add: count_trace_fst count_tool_fields foldl_count_conversation_ai
        all_conversations_Cons type_ranges_append)
qed

lemma foldl_count_trace_human:
  "humanContributions (fst (foldl count_trace acc ts))
     = humanContributions (fst acc) + type_ranges Human (all_conversations ts)"
proof (induction ts arbitrary: acc)
  case Nil
  show ?case by (simp add: all_conversations_def type_ranges_def)
next
  case (Cons t ts)
  from Cons [of "count_trace acc t"] show ?case
    by (simp add: count_trace_fst count_tool_fields foldl_count_conversation_human
        all_conversations_Cons type_ranges_append)
qed

lemma foldl_count_trace_mixed:
  "mixedContributions (fst (foldl count_trace acc ts))
     = mixedContributions (fst acc) + type_ranges Mixed (all_conversations ts)"
proof (induction ts arbitrary: acc)
  case Nil
  show ?case by (simp add: all_conversations_def type_ranges_def)
next
  case (Cons t ts)
  from Cons [of "count_trace acc t"] show ?case
    by (simp add: count_trace_fst count_tool_fields foldl_count_conversation_mixed
        all_conversations_Cons type_ranges_append)
qed

lemma foldl_count_trace_totalTraces:
  "totalTraces (fst (foldl count_trace acc ts)) = totalTraces (fst acc)"
proof (induction ts arbitrary: acc)
  case Nil
  show ?case by simp
next
  case (Cons t ts)
  from Cons [of "count_trace acc t"] show ?case
    by (simp add: count_trace_fst count_tool_fields foldl_count_conversation_frame)
qed

lemma foldl_count_trace_models:
  "map_of (models (fst (foldl count_trace acc ts))) m =
     counted (map_of (models (fst acc)) m)
       (m \<noteq> [] \<and> list_ex (\<lambda>c. modelId c = Some m) (all_conversations ts))
       (model_ranges m (all_conversations ts))"
proof (induction ts arbitrary: acc)
  case Nil
  show ?case by (simp add: all_conversations_def counted_def model_ranges_def)
next
  case (Cons t ts)
  let ?cs = "trace_conversations t" and ?rest = "all_conversations ts"
  have 1: "map_of (models (fst (count_trace acc t))) m
      = counted (map_of (models (fst acc)) m) (m \<noteq> [] \<and> list_ex (\<lambda>c. modelId c = Some m) ?cs)
          (model_ranges m ?cs)"
    by (simp add: count_trace_fst count_tool_fields foldl_count_conversation_models)
  show ?case
  proof (cases "m = []")
    case True
    with Cons [of "count_trace acc t"] 1 show ?thesis by (simp add: counted_def)
  next
    case False
    have "map_of (models (fst (foldl count_trace acc (t # ts)))) m
        = counted (map_of (models (fst acc)) m)
            (list_ex (\<lambda>c. modelId c = Some m) ?cs \<or> list_ex (\<lambda>c. modelId c = Some m) ?rest)
            ((if list_ex (\<lambda>c. modelId c = Some m) ?cs then model_ranges m ?cs else 0)
             + (if list_ex (\<lambda>c. modelId c = Some m) ?rest then model_ranges m ?rest else 0))"
      using Cons [of "count_trace acc t"] 1 False by (simp add: counted_counted)
    also have "(if list_ex (\<lambda>c. modelId c = Some m) ?cs then model_ranges m ?cs else 0) = model_ranges m ?cs"
      by (simp add: model_ranges_none)
    also have "(if list_ex (\<lambda>c. modelId c = Some m) ?rest then model_ranges m ?rest else 0) = model_ranges m ?rest"
      by (simp add: model_ranges_none)
    finally show ?thesis using False
      by (simp add: all_conversations_Cons model_ranges_append)
  qed
qed

lemma foldl_count_trace_tools:
  "map_of (tools (fst (foldl count_trace acc ts))) n =
     counted (map_of (tools (fst acc)) n) (n \<noteq> [] \<and> 0 < tool_count n ts) (tool_count n ts)"
proof (induction ts arbitrary: acc)
  case Nil
  show ?case by (simp add: counted_def tool_count_def)
next
  case (Cons t ts)
  have 1: "map_of (tools (fst (count_trace acc t))) n
      = counted (map_of (tools (fst acc)) n) (n \<noteq> [] \<and> map_option name (tool t) = Some n) 1"
    by (simp add: count_trace_fst count_tool_tools foldl_count_conversation_frame)
  show ?case
  proof (cases "n = []")
    case True
    with Cons [of "count_trace acc t"] 1 show ?thesis by (simp add: counted_def)
  next
    case False
    with Cons [of "count_trace acc t"] 1 show ?thesis
      by (auto simp: counted_counted counted_def tool_count_def split: option.split)
  qed
qed

lemma foldl_count_trace_seen:
  "set (snd (foldl count_trace acc ts)) = set (snd acc) \<union> path ` set (concat (map files ts))
   \<and> (distinct (snd acc) \<longrightarrow> distinct (snd (foldl count_trace acc ts)))"
proof (induction ts arbitrary: acc)
  case Nil
  show ?case by simp
next
  case (Cons t ts)
  from Cons [of "count_trace acc t"] foldl_count_file_seen [of acc "files t"] show ?case
    by (auto simp: count_trace_snd)
qed

subsection \<open>Groups\<close>

lemma consolidate_group_first:
  "1 < length groupTraces \<Longrightarrow>
     consolidate_group groupTraces = [(hd groupTraces)\<lparr>files := merge_files groupTraces\<rparr>]"
  by (cases groupTraces rule: consolidate_group.cases) simp_all

subsection \<open>The validator\<close>

lemma z_line_bound: "z_line j = Some n \<Longrightarrow> 1 \<le> n"
  by (auto simp: z_line_def split: json.splits if_splits)

lemma those_map_Some:
  "those (map p xs) = Some ys \<Longrightarrow> list_all2 (\<lambda>x y. p x = Some y) xs ys"
  by (induction xs arbitrary: ys) (auto split: option.splits)

lemma array_Some:
  "array p j = Some ys \<Longrightarrow> \<exists>xs. j = JArr xs \<and> list_all2 (\<lambda>x y. p x = Some y) xs ys"
  by (auto simp: array_def those_map_Some split: json.splits)

lemma array_all:
  assumes "array p j = Some ys" and "\<And>x y. p x = Some y \<Longrightarrow> Q y"
  shows "list_all Q ys"
proof -
  from array_Some [OF assms(1)] obtain xs where "list_all2 (\<lambda>x y. p x = Some y) xs ys" by blast
  then show ?thesis using assms(2)
    by (induction rule: list_all2_induct) auto
qed

lemma RangeSchema_bounds: "RangeSchema j = Some r \<Longrightarrow> range_in_bounds r"
  by (auto simp: RangeSchema_def required_def range_in_bounds_def bind_eq_Some_conv
      split: json.splits option.splits dest: z_line_bound)

subsection \<open>Reading notes\<close>

lemma read_no_note: "note_of w commitSha = None \<Longrightarrow> readTracesFromNotes fmt w commitSha = Inr []"
  by (simp add: readTracesFromNotes_def git_notes_show_def read_shown_def note_not_found_def
      split: ref_status.split)

lemma read_stored:
  "commitSha \<in> commits w \<Longrightarrow> notes_ref w = RefValid \<Longrightarrow> note_of w commitSha = Some (Doc j)
     \<Longrightarrow> readTracesFromNotes fmt w commitSha = Inr (parse_records fmt j)"
  by (simp add: readTracesFromNotes_def git_notes_show_def read_shown_def)

subsection \<open>The loop over the diff\<close>

lemma startsWith_Cons:
  "startsWith s (p # ps) = (case s of [] \<Rightarrow> False | c # cs \<Rightarrow> c = p \<and> startsWith cs ps)"
  by (cases s) simp_all

lemma push_change_first:
  "fc_path f = p \<Longrightarrow> p \<notin> fc_path ` set ys \<Longrightarrow>
     push_change (ys @ f # zs) p c = Some (ys @ f\<lparr>changes := changes f @ [c]\<rparr> # zs)"
  by (induction ys) auto

lemma push_change_none: "p \<notin> fc_path ` set fs \<Longrightarrow> push_change fs p c = None"
  by (induction fs) auto

lemma diff_line_added:
  assumes "startsWith dl ''+''" "\<not> startsWith dl ''+++''"
  shows "diff_line st dl =
    (case push_change (ds_files st) (currentFile st) \<lparr>line = lineNumber st, change_kind = Added\<rparr> of
       Some fs \<Rightarrow> st\<lparr>ds_files := fs, lineNumber := lineNumber st + 1\<rparr>
     | None \<Rightarrow> st)"
  using assms by (auto simp: diff_line_def startsWith_Cons split: list.splits)

lemma diff_line_removed:
  assumes "startsWith dl ''-''" "\<not> startsWith dl ''---''"
  shows "diff_line st dl =
    (case push_change (ds_files st) (currentFile st) \<lparr>line = lineNumber st, change_kind = Removed\<rparr> of
       Some fs \<Rightarrow> st\<lparr>ds_files := fs\<rparr>
     | None \<Rightarrow> st)"
  using assms by (auto simp: diff_line_def startsWith_Cons split: list.splits)

lemma diff_line_other:
  assumes "\<not> startsWith dl ''+++ b/''" "\<not> startsWith dl ''--- a/''" "\<not> startsWith dl ''@''"
    "\<not> (startsWith dl ''+'' \<and> \<not> startsWith dl ''+++'')"
    "\<not> (startsWith dl ''-'' \<and> \<not> startsWith dl ''---'')"
  shows "diff_line st dl = (if trim dl \<noteq> [] then st\<lparr>lineNumber := lineNumber st + 1\<rparr> else st)"
  using assms by (auto simp: diff_line_def startsWith_Cons split: list.splits)

subsection \<open>The matcher\<close>













subsection \<open>Writing notes and draining the staging buffer\<close>

lemma ensureNotesRef_eq: "ensureNotesRef w = (Inr (), repaired w)"
proof (cases "notes_ref w")
  case RefValid
  then have "repaired w = w" by (simp add: repaired_def)
  with RefValid show ?thesis
    by (simp add: ensureNotesRef_def git_show_ref_def git_notes_list_def)
next
  case RefMissing
  then show ?thesis
    by (simp add: ensureNotesRef_def Let_def git_show_ref_def git_notes_list_def repaired_def
        git_notes_init_remove_def git_update_ref_empty_tree_def split: option.split)
next
  case RefBroken
  then show ?thesis
    by (simp add: ensureNotesRef_def Let_def git_show_ref_def git_notes_list_def repaired_def
        git_notes_init_remove_def git_update_ref_empty_tree_def git_update_ref_d_def
        split: option.split)
qed

lemma write_eq:
  assumes "traces \<noteq> []" "commitSha \<in> commits w"
  shows "writeTracesToNotes fmt commitSha traces w =
    (Inr (), (repaired w)\<lparr>note_of := (note_of (repaired w))(commitSha \<mapsto>
       note_for (consolidateTraces (stored_records fmt w commitSha
                                     @ undelivered (stored_records fmt w commitSha) traces)))\<rparr>)"
  using assms
  by (simp add: writeTracesToNotes_def ensureNotesRef_eq stored_records_def undelivered_def
      note_for_def Let_def git_notes_add_f_def repaired_def)

lemma staging_traces_eq:
  "staging_traces fmt commitSha ls = map (set_revision commitSha) (List.map_filter (line_record fmt) ls)"
  by (induction fmt commitSha ls rule: staging_traces.induct)
     (simp_all add: line_record_def set_revision_def split: option.split)


lemma add_to_group_new:
  "k \<notin> fst ` set gs \<Longrightarrow> add_to_group gs k t = gs @ [(k, [t])]"
  by (induction gs k t rule: add_to_group.induct) auto

lemma group_traces_distinct:
  "distinct (map fst gs @ conv_keys i ts) \<Longrightarrow>
     group_traces gs i ts = gs @ map (\<lambda>(k, t). (k, [t])) (zip (conv_keys i ts) ts)"
proof (induction gs i ts rule: group_traces.induct)
  case (1 gs i)
  show ?case by simp
next
  case (2 gs i t ts)
  from 2(2) have n: "conversationId i t \<notin> fst ` set gs" by auto
  then have a: "add_to_group gs (conversationId i t) t = gs @ [(conversationId i t, [t])]"
    by (rule add_to_group_new)
  from 2(2) have "distinct (map fst (gs @ [(conversationId i t, [t])]) @ conv_keys (Suc i) ts)"
    by auto
  with 2(1) a show ?case by simp
qed

lemma consolidate_singletons:
  "concat (map (\<lambda>(k, g). consolidate_group g) (map (\<lambda>(k, t). (k, [t])) kts)) = map snd kts"
  by (induction kts) auto

lemma length_conv_keys: "length (conv_keys i ts) = length ts"
  by (induction ts arbitrary: i) auto

lemma consolidateTraces_distinct_keys:
  assumes "distinct (conv_keys 0 traces)"
  shows "consolidateTraces traces = traces"
proof (cases "length traces \<le> 1")
  case True
  then show ?thesis by (simp add: consolidateTraces_def)
next
  case False
  from assms have "group_traces [] 0 traces = map (\<lambda>(k, t). (k, [t])) (zip (conv_keys 0 traces) traces)"
    using group_traces_distinct [of "[]" 0 traces] by simp
  then have "concat (map (\<lambda>(k, g). consolidate_group g) (group_traces [] 0 traces))
      = map snd (zip (conv_keys 0 traces) traces)"
    by (simp only: consolidate_singletons)
  also have "\<dots> = traces" by (simp add: length_conv_keys)
  finally show ?thesis using False by (simp add: consolidateTraces_def)
qed


lemma line_record_Blank: "line_record fmt Blank = None"
  by (simp add: line_record_def)

lemma map_filter_non_blank:
  "List.map_filter (line_record fmt) (filter (\<lambda>l. l \<noteq> Blank) ls) = List.map_filter (line_record fmt) ls"
  by (induction ls) (auto simp: line_record_Blank split: option.split)

lemma repaired_fields:
  "head (repaired w) = head w" "commits (repaired w) = commits w" "staging (repaired w) = staging w"
  "notes_ref (repaired w) = RefValid" "repaired (repaired w) = repaired w"
  by (simp_all add: repaired_def)

subsection \<open>Validation after serialisation\<close>

lemma those_map_id:
  "(\<And>x. x \<in> set xs \<Longrightarrow> f x = Some x) \<Longrightarrow> those (map f xs) = Some xs"
  by (induction xs) auto

lemma array_encoded:
  "(\<And>x. x \<in> set xs \<Longrightarrow> p (enc x) = Some x) \<Longrightarrow> array p (JArr (map enc xs)) = Some xs"
  using those_map_id [of xs "p \<circ> enc"] by (simp add: array_def)

lemma ContributorType_roundtrip: "ContributorTypeSchema (json_of_ContributorType t) = Some t"
  by (cases t) (simp_all add: ContributorTypeSchema_def json_of_ContributorType_def)

lemma VcsType_roundtrip: "VcsTypeSchema (json_of_VcsType t) = Some t"
  by (cases t) (simp_all add: VcsTypeSchema_def json_of_VcsType_def)

lemma Contributor_roundtrip:
  "valid_contributor c \<Longrightarrow> ContributorSchema (json_of_Contributor c) = Some c"
  by (cases "model_id c")
     (simp_all add: ContributorSchema_def json_of_Contributor_def required_def optional_def
       opt_field_def z_string_where_def valid_contributor_def ContributorType_roundtrip)

lemma z_line_roundtrip: "1 \<le> n \<Longrightarrow> z_line (JNum (of_int n)) = Some n"
  by (simp add: z_line_def)

lemma Range_roundtrip: "valid_range r \<Longrightarrow> RangeSchema (json_of_Range r) = Some r"
  by (cases "content_hash r"; cases "range_contributor r")
     (simp_all add: RangeSchema_def json_of_Range_def required_def optional_def opt_field_def
       z_string_def valid_range_def z_line_roundtrip Contributor_roundtrip)

lemma Related_roundtrip:
  "valid_related fmt x \<Longrightarrow> RelatedResourceSchema fmt (json_of_RelatedResource x) = Some x"
  by (simp add: RelatedResourceSchema_def json_of_RelatedResource_def required_def
      z_string_def z_string_where_def valid_related_def)

lemma Conversation_roundtrip:
  assumes "valid_conversation fmt c"
  shows "ConversationSchema fmt (json_of_Conversation c) = Some c"
proof -
  from assms have r: "array RangeSchema (JArr (map json_of_Range (ranges c))) = Some (ranges c)"
    by (intro array_encoded Range_roundtrip) (simp add: valid_conversation_def list_all_iff)
  have rl: "array (RelatedResourceSchema fmt) (JArr (map json_of_RelatedResource rs)) = Some rs"
    if "related c = Some rs" for rs
    using assms that
    by (intro array_encoded Related_roundtrip) (simp add: valid_conversation_def list_all_iff)
  from assms r rl show ?thesis
    by (cases "url c"; cases "contributor c"; cases "related c")
       (simp_all add: ConversationSchema_def json_of_Conversation_def required_def optional_def
         opt_field_def z_string_where_def valid_conversation_def Contributor_roundtrip)
qed

lemma File_roundtrip:
  assumes "valid_file fmt f"
  shows "FileSchema fmt (json_of_File f) = Some f"
proof -
  from assms have "array (ConversationSchema fmt) (JArr (map json_of_Conversation (conversations f)))
      = Some (conversations f)"
    by (intro array_encoded Conversation_roundtrip) (simp add: valid_file_def list_all_iff)
  then show ?thesis
    by (simp add: FileSchema_def json_of_File_def required_def z_string_def)
qed

lemma Vcs_roundtrip: "VcsSchema (json_of_Vcs v) = Some v"
  by (simp add: VcsSchema_def json_of_Vcs_def required_def z_string_def VcsType_roundtrip)

lemma Tool_roundtrip: "ToolSchema (json_of_Tool t) = Some t"
  by (cases "tool_version t")
     (simp_all add: ToolSchema_def json_of_Tool_def required_def optional_def opt_field_def z_string_def)

lemma TraceRecord_roundtrip:
  assumes "valid_record fmt t"
  shows "TraceRecordSchema fmt (json_of_TraceRecord t) = Some t"
proof -
  from assms have "array (FileSchema fmt) (JArr (map json_of_File (files t))) = Some (files t)"
    by (intro array_encoded File_roundtrip) (simp add: valid_record_def list_all_iff)
  with assms show ?thesis
    by (cases "vcs t"; cases "tool t"; cases "metadata t")
       (simp_all add: TraceRecordSchema_def json_of_TraceRecord_def required_def optional_def
         opt_field_def z_string_where_def z_record_def valid_record_def Vcs_roundtrip Tool_roundtrip)
qed

lemma optional_Some:
  "optional p kvs k = Some v \<Longrightarrow> v = None \<or> (\<exists>j x. map_of kvs k = Some j \<and> p j = Some x \<and> v = Some x)"
  by (auto simp: optional_def split: option.splits)

lemma required_Some: "required p kvs k = Some v \<Longrightarrow> \<exists>j. map_of kvs k = Some j \<and> p j = Some v"
  by (auto simp: required_def split: option.splits)

lemma z_string_where_Some: "z_string_where ok j = Some s \<Longrightarrow> ok s"
  by (auto simp: z_string_where_def split: json.splits if_splits)

lemma ContributorSchema_valid: "ContributorSchema j = Some c \<Longrightarrow> valid_contributor c"
  by (auto simp: ContributorSchema_def valid_contributor_def bind_eq_Some_conv
      split: json.splits option.splits dest!: optional_Some z_string_where_Some)

lemma RangeSchema_valid: "RangeSchema j = Some r \<Longrightarrow> valid_range r"
  by (auto simp: RangeSchema_def valid_range_def bind_eq_Some_conv
      split: json.splits option.splits
      dest!: optional_Some required_Some z_line_bound ContributorSchema_valid)

lemma RelatedResourceSchema_valid: "RelatedResourceSchema fmt j = Some x \<Longrightarrow> valid_related fmt x"
  by (auto simp: RelatedResourceSchema_def valid_related_def bind_eq_Some_conv
      split: json.splits dest!: required_Some z_string_where_Some)

lemma ConversationSchema_valid: "ConversationSchema fmt j = Some c \<Longrightarrow> valid_conversation fmt c"
  by (auto simp: ConversationSchema_def valid_conversation_def bind_eq_Some_conv
      split: json.splits option.splits
      dest!: optional_Some required_Some z_string_where_Some ContributorSchema_valid
      intro: array_all RangeSchema_valid RelatedResourceSchema_valid)

lemma FileSchema_valid: "FileSchema fmt j = Some f \<Longrightarrow> valid_file fmt f"
  by (auto simp: FileSchema_def valid_file_def bind_eq_Some_conv
      split: json.splits dest!: required_Some intro: array_all ConversationSchema_valid)

lemma TraceRecordSchema_valid: "TraceRecordSchema fmt j = Some t \<Longrightarrow> valid_record fmt t"
  by (auto simp: TraceRecordSchema_def valid_record_def bind_eq_Some_conv
      split: json.splits dest!: required_Some z_string_where_Some intro: array_all FileSchema_valid)

lemma map_filter_valid: "list_all (valid_record fmt) (List.map_filter (TraceRecordSchema fmt) js)"
  by (induction js) (auto split: option.splits dest: TraceRecordSchema_valid)

lemma stored_records_valid: "list_all (valid_record fmt) (stored_records fmt w commitSha)"
  by (auto simp: stored_records_def readTracesFromNotes_def read_shown_def parse_records_def
      map_filter_valid split: sum.splits json_text.splits if_splits)

lemma map_filter_roundtrip:
  "list_all (valid_record fmt) ts \<Longrightarrow>
     List.map_filter (TraceRecordSchema fmt) (map json_of_TraceRecord ts) = ts"
  by (induction ts) (auto simp: TraceRecord_roundtrip)

lemma stored_records_note_for:
  assumes "commitSha \<in> commits w" "notes_ref w = RefValid" "note_of w commitSha = Some (note_for ts)"
    "list_all (valid_record fmt) ts"
  shows "stored_records fmt w commitSha = ts"
  using assms
  by (simp add: stored_records_def read_stored note_for_def parse_records_def map_filter_roundtrip)

subsection \<open>Consolidation of valid records\<close>

lemma merge_ranges_valid:
  assumes "valid_conversation fmt existing" "valid_conversation fmt conv"
  shows "valid_conversation fmt (merge_ranges existing conv)"
proof -
  obtain added where a: "push_new_ranges (ranges existing) (set (map rangeKey (ranges existing))) (ranges conv)
      = ranges existing @ added" and s: "set added \<subseteq> set (ranges conv)"
    using push_new_ranges_prefix by blast
  from assms s have "list_all valid_range (ranges existing @ added)"
    by (auto simp: valid_conversation_def list_all_iff)
  with assms(1) a show ?thesis
    by (simp add: valid_conversation_def merge_ranges_def)
qed

lemma merge_conversation_valid:
  "list_all (valid_conversation fmt) cs \<Longrightarrow> valid_conversation fmt conv
     \<Longrightarrow> list_all (valid_conversation fmt) (merge_conversation cs conv)"
  by (induction cs) (auto simp: merge_ranges_valid)

lemma merge_conversations_valid:
  "list_all (valid_conversation fmt) cs \<Longrightarrow> list_all (valid_conversation fmt) convs
     \<Longrightarrow> list_all (valid_conversation fmt) (merge_conversations cs convs)"
  unfolding merge_conversations_def
  by (induction convs arbitrary: cs) (auto simp: merge_conversation_valid)

lemma merge_file_valid:
  "list_all (valid_file fmt) es \<Longrightarrow> valid_file fmt f \<Longrightarrow> list_all (valid_file fmt) (merge_file es f)"
  by (induction es) (auto simp: valid_file_def merge_conversations_valid)

lemma foldl_merge_file_valid:
  "list_all (valid_file fmt) es \<Longrightarrow> list_all (valid_file fmt) fs
     \<Longrightarrow> list_all (valid_file fmt) (foldl merge_file es fs)"
  by (induction fs arbitrary: es) (auto simp: merge_file_valid)

lemma merge_files_valid:
  "list_all (valid_record fmt) ts \<Longrightarrow> list_all (valid_file fmt) (merge_files ts)"
  unfolding merge_files_def
  by (rule foldl_merge_file_valid) (auto simp: list_all_iff valid_record_def)

lemma consolidate_group_valid:
  "list_all (valid_record fmt) ts \<Longrightarrow> list_all (valid_record fmt) (consolidate_group ts)"
proof (cases ts rule: consolidate_group.cases)
  case 1 then show ?thesis by simp
next
  case (2 t) then show "list_all (valid_record fmt) ts \<Longrightarrow> ?thesis" by simp
next
  case (3 b v va)
  assume a: "list_all (valid_record fmt) ts"
  from merge_files_valid [OF a] a 3 show ?thesis by (simp add: valid_record_def)
qed

lemma consolidateTraces_valid:
  assumes "list_all (valid_record fmt) traces"
  shows "list_all (valid_record fmt) (consolidateTraces traces)"
proof (cases "length traces \<le> 1")
  case True
  with assms show ?thesis by (simp add: consolidateTraces_def)
next
  case False
  have "\<And>k g. (k, g) \<in> set (group_traces [] 0 traces) \<Longrightarrow> list_all (valid_record fmt) g"
  proof -
    fix k g assume "(k, g) \<in> set (group_traces [] 0 traces)"
    then have "set g \<subseteq> (\<Union>g\<in>set (group_traces [] 0 traces). set (snd g))" by force
    then have "set g \<subseteq> set traces" by (simp add: group_traces_members)
    with assms show "list_all (valid_record fmt) g"
      by (auto simp: list_all_iff)
  qed
  then have "\<And>k g. (k, g) \<in> set (group_traces [] 0 traces)
      \<Longrightarrow> list_all (valid_record fmt) (consolidate_group g)"
    by (rule consolidate_group_valid)
  with False show ?thesis
    by (auto simp: consolidateTraces_def list_all_iff)
qed

lemma same_contributor_ckey: "same_contributor c c' \<longleftrightarrow> ckey c = ckey c'"
  by (simp add: same_contributor_def ckey_def)

lemma ckey_merge_ranges: "ckey (merge_ranges c x) = ckey c"
  by (simp add: ckey_def merge_ranges_def)

lemma merge_conversation_new:
  "ckey c \<notin> ckey ` set cs \<Longrightarrow> merge_conversation cs c = cs @ [c]"
  by (induction cs) (auto simp: same_contributor_ckey)

lemma foldl_merge_conversation_distinct:
  "distinct (map ckey (acc @ cs)) \<Longrightarrow> foldl merge_conversation acc cs = acc @ cs"
proof (induction cs arbitrary: acc)
  case Nil
  show ?case by simp
next
  case (Cons c cs)
  from Cons.prems have "ckey c \<notin> ckey ` set acc" by auto
  then have a: "merge_conversation acc c = acc @ [c]" by (rule merge_conversation_new)
  from Cons.prems have "distinct (map ckey ((acc @ [c]) @ cs))" by simp
  from Cons.IH [OF this] a show ?case by simp
qed

lemma ckeys_merge_conversation:
  "map ckey (merge_conversation cs c)
     = (if ckey c \<in> ckey ` set cs then map ckey cs else map ckey cs @ [ckey c])"
  by (induction cs) (auto simp: same_contributor_ckey ckey_merge_ranges)

lemma merge_conversation_distinct:
  "distinct (map ckey cs) \<Longrightarrow> distinct (map ckey (merge_conversation cs c))"
  by (simp add: ckeys_merge_conversation)

lemma merge_conversations_distinct:
  "distinct (map ckey cs) \<Longrightarrow> distinct (map ckey (merge_conversations cs xs))"
  unfolding merge_conversations_def
  by (induction xs arbitrary: cs) (simp_all add: merge_conversation_distinct)

subsection \<open>Merging what is already merged\<close>

lemma push_new_ranges_seen: "rangeKey ` set rs \<subseteq> seen \<Longrightarrow> push_new_ranges acc seen rs = acc"
  by (induction rs arbitrary: acc) auto

lemma merge_ranges_absorbed:
  "rangeKey ` set (ranges c) \<subseteq> rangeKey ` set (ranges c') \<Longrightarrow> merge_ranges c' c = c'"
  by (simp add: merge_ranges_def push_new_ranges_seen)

lemma merge_ranges_keys:
  "rangeKey ` set (ranges (merge_ranges c' c)) = rangeKey ` set (ranges c') \<union> rangeKey ` set (ranges c)"
  by (auto simp: merge_ranges_def push_new_ranges_keys)

lemma merge_conversation_absorbed: "conv_absorbed cs c \<Longrightarrow> merge_conversation cs c = cs"
  by (induction cs) (auto simp: conv_absorbed_def same_contributor_ckey merge_ranges_absorbed)

lemma absorbed_after_merge: "conv_absorbed (merge_conversation cs c) c"
  by (induction cs) (auto simp: conv_absorbed_def same_contributor_ckey ckey_merge_ranges merge_ranges_keys)

lemma absorbed_mono: "conv_absorbed cs c \<Longrightarrow> conv_absorbed (merge_conversation cs x) c"
proof (induction cs)
  case Nil
  then show ?case by (simp add: conv_absorbed_def)
next
  case (Cons a cs)
  show ?case
  proof (cases "ckey a = ckey c")
    case True
    with Cons.prems have s: "rangeKey ` set (ranges c) \<subseteq> rangeKey ` set (ranges a)"
      by (simp add: conv_absorbed_def)
    show ?thesis
    proof (cases "same_contributor a x")
      case True
      with s \<open>ckey a = ckey c\<close> show ?thesis
        by (simp add: conv_absorbed_def ckey_merge_ranges merge_ranges_keys le_supI1)
    next
      case False
      with s \<open>ckey a = ckey c\<close> show ?thesis by (simp add: conv_absorbed_def)
    qed
  next
    case False
    with Cons.prems have p: "conv_absorbed cs c" by (simp add: conv_absorbed_def)
    from Cons.IH [OF p] p False show ?thesis
      by (simp add: conv_absorbed_def ckey_merge_ranges)
  qed
qed

lemma absorbed_mono_foldl: "conv_absorbed cs c \<Longrightarrow> conv_absorbed (foldl merge_conversation cs xs) c"
  by (induction xs arbitrary: cs) (simp_all add: absorbed_mono)

lemma merge_conversations_absorbed:
  "list_all (conv_absorbed cs) xs \<Longrightarrow> merge_conversations cs xs = cs"
  unfolding merge_conversations_def
  by (induction xs) (simp_all add: merge_conversation_absorbed)

lemma absorbed_after_merges: "list_all (conv_absorbed (merge_conversations cs xs)) xs"
  unfolding merge_conversations_def
proof (induction xs arbitrary: cs)
  case Nil
  show ?case by simp
next
  case (Cons x xs)
  have "conv_absorbed (foldl merge_conversation (merge_conversation cs x) xs) x"
    by (rule absorbed_mono_foldl) (rule absorbed_after_merge)
  with Cons [of "merge_conversation cs x"] show ?case by simp
qed

lemma absorbed_mono_merges:
  "list_all (conv_absorbed cs) ys \<Longrightarrow> list_all (conv_absorbed (merge_conversations cs xs)) ys"
  unfolding merge_conversations_def by (auto simp: list_all_iff absorbed_mono_foldl)

lemma merge_file_absorbed: "file_absorbed es f \<Longrightarrow> merge_file es f = es"
  by (induction es) (auto simp: file_absorbed_def merge_conversations_absorbed)

lemma file_absorbed_after_merge: "file_absorbed (merge_file es f) f"
  by (induction es) (auto simp: file_absorbed_def absorbed_after_merges)

lemma file_absorbed_mono: "file_absorbed es f \<Longrightarrow> file_absorbed (merge_file es g) f"
  by (induction es) (auto simp: file_absorbed_def absorbed_mono_merges)

lemma file_absorbed_mono_foldl: "file_absorbed es f \<Longrightarrow> file_absorbed (foldl merge_file es gs) f"
  by (induction gs arbitrary: es) (simp_all add: file_absorbed_mono)

lemma foldl_merge_file_absorbed: "list_all (file_absorbed es) fs \<Longrightarrow> foldl merge_file es fs = es"
  by (induction fs) (simp_all add: merge_file_absorbed)

lemma file_absorbed_after_foldl: "list_all (file_absorbed (foldl merge_file es fs)) fs"
proof (induction fs arbitrary: es)
  case Nil
  show ?case by simp
next
  case (Cons f fs)
  have "file_absorbed (foldl merge_file (merge_file es f) fs) f"
    by (rule file_absorbed_mono_foldl) (rule file_absorbed_after_merge)
  with Cons [of "merge_file es f"] show ?case by simp
qed

lemma paths_merge_file:
  "map path (merge_file es f)
     = (if path f \<in> path ` set es then map path es else map path es @ [path f])"
  by (induction es) auto

lemma merge_file_normal:
  "list_all file_normal es \<Longrightarrow> list_all file_normal (merge_file es f)"
  by (induction es) (auto simp: file_normal_def merge_conversations_distinct)

lemma foldl_merge_file_normal:
  "distinct (map path es) \<Longrightarrow> list_all file_normal es \<Longrightarrow>
     distinct (map path (foldl merge_file es fs)) \<and> list_all file_normal (foldl merge_file es fs)"
  by (induction fs arbitrary: es) (simp_all add: paths_merge_file merge_file_normal)

lemma merge_file_new:
  "path f \<notin> path ` set es \<Longrightarrow> file_normal f \<Longrightarrow> merge_file es f = es @ [f]"
proof (induction es)
  case Nil
  then have "merge_conversations [] (conversations f) = conversations f"
    using foldl_merge_conversation_distinct [of "[]" "conversations f"]
    by (simp add: merge_conversations_def file_normal_def)
  then show ?case by simp
next
  case (Cons e es)
  then show ?case by auto
qed

lemma foldl_merge_file_normal_id:
  "distinct (map path (acc @ fs)) \<Longrightarrow> list_all file_normal fs \<Longrightarrow> foldl merge_file acc fs = acc @ fs"
proof (induction fs arbitrary: acc)
  case Nil
  show ?case by simp
next
  case (Cons f fs)
  from Cons.prems have "path f \<notin> path ` set acc" "file_normal f" by auto
  then have a: "merge_file acc f = acc @ [f]" by (rule merge_file_new)
  from Cons.prems have "distinct (map path ((acc @ [f]) @ fs))" "list_all file_normal fs" by simp_all
  from Cons.IH [OF this] a show ?case by simp
qed

lemma remerge_absorbs:
  "foldl merge_file [] (foldl merge_file [] (xs @ ys) @ ys) = foldl merge_file [] (xs @ ys)"
proof -
  let ?F = "foldl merge_file [] (xs @ ys)"
  from foldl_merge_file_normal [of "[]" "xs @ ys"]
  have n: "distinct (map path ?F)" "list_all file_normal ?F" by simp_all
  then have 1: "foldl merge_file [] ?F = ?F"
    using foldl_merge_file_normal_id [of "[]" ?F] by simp
  have "list_all (file_absorbed ?F) (xs @ ys)" by (rule file_absorbed_after_foldl)
  then have "list_all (file_absorbed ?F) ys" by simp
  then have 2: "foldl merge_file ?F ys = ?F" by (rule foldl_merge_file_absorbed)
  from 1 2 show ?thesis by simp
qed

lemma merge_files_remerge:
  "merge_files [e\<lparr>files := merge_files [e, r]\<rparr>, r] = merge_files [e, r]"
  using remerge_absorbs [of "files e" "files r"] by (simp add: merge_files_def)

subsection \<open>Delivering a record again\<close>

lemma merge_conversation_lead:
  "cs \<noteq> [] \<Longrightarrow> merge_conversation cs x \<noteq> [] \<and> url (hd (merge_conversation cs x)) = url (hd cs)"
  by (cases cs) (auto simp: merge_ranges_def)

lemma foldl_merge_conversation_lead:
  "cs \<noteq> [] \<Longrightarrow> foldl merge_conversation cs xs \<noteq> []
     \<and> url (hd (foldl merge_conversation cs xs)) = url (hd cs)"
proof (induction xs arbitrary: cs)
  case Nil
  then show ?case by simp
next
  case (Cons x xs)
  from merge_conversation_lead [OF Cons.prems, of x] Cons.IH [of "merge_conversation cs x"]
  show ?case by simp
qed

lemma merge_file_lead:
  assumes "es \<noteq> []" "conversations (hd es) \<noteq> []"
  shows "merge_file es f \<noteq> [] \<and> conversations (hd (merge_file es f)) \<noteq> []
     \<and> url (hd (conversations (hd (merge_file es f)))) = url (hd (conversations (hd es)))"
proof (cases es)
  case Nil
  with assms show ?thesis by simp
next
  case (Cons e es')
  with assms foldl_merge_conversation_lead [of "conversations e" "conversations f"]
  show ?thesis by (simp add: merge_conversations_def)
qed

lemma foldl_merge_file_lead:
  "es \<noteq> [] \<Longrightarrow> conversations (hd es) \<noteq> [] \<Longrightarrow>
     foldl merge_file es fs \<noteq> [] \<and> conversations (hd (foldl merge_file es fs)) \<noteq> []
     \<and> url (hd (conversations (hd (foldl merge_file es fs)))) = url (hd (conversations (hd es)))"
proof (induction fs arbitrary: es)
  case Nil
  then show ?case by simp
next
  case (Cons f fs)
  from merge_file_lead [OF Cons.prems, of f] Cons.IH [of "merge_file es f"]
  show ?case by simp
qed

lemma first_url_anchored:
  "anchored t \<Longrightarrow> first_url t = url (hd (conversations (hd (files t))))"
  by (cases "files t"; cases "conversations (hd (files t))") (simp_all add: anchored_def first_url_def)

lemma merge_files_lead:
  assumes "anchored e"
  shows "merge_files (e # rest) \<noteq> [] \<and> conversations (hd (merge_files (e # rest))) \<noteq> []
    \<and> url (hd (conversations (hd (merge_files (e # rest))))) = url (hd (conversations (hd (files e))))"
proof -
  from assms obtain f fs where fs: "files e = f # fs" and c: "conversations f \<noteq> []"
    by (cases "files e") (auto simp: anchored_def)
  from c obtain c0 cs0 where cs: "conversations f = c0 # cs0" by (cases "conversations f") auto
  let ?e0 = "\<lparr>path = path f, conversations = merge_conversations [] (conversations f)\<rparr>"
  have l: "conversations ?e0 \<noteq> [] \<and> url (hd (conversations ?e0)) = url c0"
    using foldl_merge_conversation_lead [of "[c0]" cs0] by (simp add: cs merge_conversations_def)
  have "merge_files (e # rest) = foldl merge_file [?e0] (fs @ concat (map files rest))"
    by (simp add: merge_files_def fs)
  with foldl_merge_file_lead [of "[?e0]" "fs @ concat (map files rest)"] l
  show ?thesis by (simp add: fs cs)
qed

lemma merged_anchored: "anchored e \<Longrightarrow> anchored (merged e r)"
  using merge_files_lead [of e "[r]"] by (simp add: merged_def anchored_def)

lemma merged_key: "anchored e \<Longrightarrow> conversationId i (merged e r) = conversationId i e"
proof -
  assume a: "anchored e"
  then have "first_url (merged e r) = first_url e"
    using merge_files_lead [OF a, of "[r]"] merged_anchored [OF a, of r]
    by (simp add: first_url_anchored) (simp add: merged_def)
  moreover have "metadata_key i (merged e r) = metadata_key i e"
    by (simp add: metadata_key_def metadata_conversation_id_def merged_def)
  ultimately show ?thesis by (simp add: conversationId_def split: option.split)
qed

lemma merged_merged: "merged (merged e r) r = merged e r"
  using merge_files_remerge [of e r] by (simp add: merged_def)

lemma merged_id: "rec_id (merged e r) = rec_id e"
  by (simp add: merged_def)

lemma conv_keys_append:
  "conv_keys i (xs @ ys) = conv_keys i xs @ conv_keys (i + length xs) ys"
  by (induction xs arbitrary: i) simp_all

lemma group_traces_snoc:
  "group_traces gs i (ts @ [t])
     = add_to_group (group_traces gs i ts) (conversationId (i + length ts) t) t"
  by (induction gs i ts rule: group_traces.induct) simp_all

lemma add_to_group_at:
  "i < length gs \<Longrightarrow> fst (gs ! i) = k \<Longrightarrow> k \<notin> fst ` set (take i gs) \<Longrightarrow>
     add_to_group gs k t = gs[i := (k, snd (gs ! i) @ [t])]"
proof (induction gs k t arbitrary: i rule: add_to_group.induct)
  case (1 k t)
  then show ?case by simp
next
  case (2 k' ts gs k t)
  show ?case
  proof (cases i)
    case 0
    with 2(3) show ?thesis by simp
  next
    case (Suc j)
    with 2(4) have ne: "k' \<noteq> k" by auto
    from Suc 2(2,3,4) have "j < length gs" "fst (gs ! j) = k" "k \<notin> fst ` set (take j gs)" by auto
    from 2(1) [OF ne this] ne Suc show ?thesis by simp
  qed
qed

lemma consolidate_nonempty_groups:
  "list_all (\<lambda>kg. snd kg \<noteq> []) gs \<Longrightarrow>
     concat (map (\<lambda>(k, g). consolidate_group g) gs) = map (\<lambda>kg. consolidated_group (snd kg)) gs"
proof (induction gs)
  case Nil
  show ?case by simp
next
  case (Cons kg gs)
  obtain k g where kg: "kg = (k, g)" by (cases kg)
  with Cons.prems have "g \<noteq> []" by simp
  then have "consolidate_group g = [consolidated_group g]"
    by (cases g rule: consolidate_group.cases) (simp_all add: consolidated_group_def)
  with Cons kg show ?case by simp
qed

lemma consolidateTraces_join:
  assumes d: "distinct (conv_keys 0 E)" and i: "i < length E"
    and k: "conversationId (length E) r = conversationId i (E ! i)"
  shows "consolidateTraces (E @ [r]) = E[i := merged (E ! i) r]"
proof -
  let ?gs = "map (\<lambda>(k, t). (k, [t])) (zip (conv_keys 0 E) E)"
  have g: "group_traces [] 0 E = ?gs"
    using group_traces_distinct [of "[]" 0 E] d by simp
  have len: "length ?gs = length E" by (simp add: length_conv_keys)
  have nth: "?gs ! j = (conv_keys 0 E ! j, [E ! j])" if "j < length E" for j
    using that by (simp add: length_conv_keys)
  have keyn: "conv_keys 0 E ! j = conversationId j (E ! j)" if "j < length E" for j
  proof -
    have "\<And>a. j < length E \<Longrightarrow> conv_keys a E ! j = conversationId (a + j) (E ! j)"
    proof (induction E arbitrary: j)
      case Nil
      then show ?case by simp
    next
      case (Cons e E)
      then show ?case by (cases j) simp_all
    qed
    from this [of 0] that show ?thesis by simp
  qed
  have fsts: "map fst ?gs = conv_keys 0 E"
  proof -
    have "map fst ?gs = map fst (zip (conv_keys 0 E) E)"
      by (simp add: case_prod_beta comp_def)
    then show ?thesis by (simp add: length_conv_keys)
  qed
  let ?k = "conversationId (length E) r"
  have fi: "fst (?gs ! i) = ?k" using i k by (simp add: nth keyn)
  have notbefore: "?k \<notin> fst ` set (take i ?gs)"
  proof
    assume "?k \<in> fst ` set (take i ?gs)"
    then have "?k \<in> set (map fst (take i ?gs))" by (simp only: set_map)
    then have "?k \<in> set (take i (map fst ?gs))" by (simp only: take_map)
    then have "?k \<in> set (take i (conv_keys 0 E))" by (simp only: fsts)
    then obtain j where j: "j < i" "conv_keys 0 E ! j = ?k"
      using i by (auto simp: in_set_conv_nth length_conv_keys)
    with fi i have "conv_keys 0 E ! j = conv_keys 0 E ! i" by (simp add: nth)
    with d j(1) i show False by (simp add: nth_eq_iff_index_eq length_conv_keys)
  qed
  have "group_traces [] 0 (E @ [r]) = add_to_group ?gs ?k r"
    using group_traces_snoc [of "[]" 0 E r] g by simp
  also have "\<dots> = ?gs[i := (?k, snd (?gs ! i) @ [r])]"
    using add_to_group_at [of i ?gs ?k r] i fi notbefore len by simp
  also have "\<dots> = ?gs[i := (?k, [E ! i, r])]" using i by (simp add: nth)
  finally have grp: "group_traces [] 0 (E @ [r]) = ?gs[i := (?k, [E ! i, r])]" .
  have all_ne: "list_all (\<lambda>kg. snd kg \<noteq> []) (?gs[i := (?k, [E ! i, r])])"
    by (auto simp: list_all_iff dest!: set_update_subset_insert [THEN subsetD])
  have single: "map (\<lambda>kg. consolidated_group (snd kg)) ?gs = E"
  proof -
    have "map (\<lambda>kg. consolidated_group (snd kg)) ?gs = map snd (zip (conv_keys 0 E) E)"
      by (simp add: consolidated_group_def case_prod_beta comp_def)
    then show ?thesis by (simp add: length_conv_keys)
  qed
  from i have "E \<noteq> []" by auto
  then have "consolidateTraces (E @ [r])
      = map (\<lambda>kg. consolidated_group (snd kg)) (?gs[i := (?k, [E ! i, r])])"
    using consolidate_nonempty_groups [OF all_ne] by (simp add: consolidateTraces_def grp)
  also have "\<dots> = (map (\<lambda>kg. consolidated_group (snd kg)) ?gs)[i := consolidated_group [E ! i, r]]"
    by (simp add: map_update)
  also have "\<dots> = E[i := merged (E ! i) r]"
    by (simp only: single) (simp add: consolidated_group_def merged_def)
  finally show ?thesis .
qed

lemma conv_keys_nth: "j < length E \<Longrightarrow> conv_keys a E ! j = conversationId (a + j) (E ! j)"
proof (induction E arbitrary: j a)
  case Nil
  then show ?case by simp
next
  case (Cons e E)
  then show ?case by (cases j) simp_all
qed

lemma conv_keys_update:
  "i < length E \<Longrightarrow> conversationId (a + i) m = conversationId (a + i) (E ! i) \<Longrightarrow>
     conv_keys a (E[i := m]) = conv_keys a E"
proof (induction E arbitrary: i a)
  case Nil
  then show ?case by simp
next
  case (Cons e E)
  show ?case
  proof (cases i)
    case 0
    with Cons.prems show ?thesis by simp
  next
    case (Suc j)
    with Cons.prems Cons.IH [of j "Suc a"] show ?thesis by simp
  qed
qed

lemma undelivered_single:
  "undelivered E [r] = (if rec_id r \<in> set (map rec_id E) then [] else [r])"
  by (simp add: undelivered_def)

lemma consolidate_redelivery:
  assumes d: "distinct (conv_keys 0 E)" and a: "list_all anchored E"
  shows "consolidateTraces (consolidateTraces (E @ undelivered E [r])
           @ undelivered (consolidateTraces (E @ undelivered E [r])) [r])
         = consolidateTraces (E @ undelivered E [r])"
proof (cases "rec_id r \<in> set (map rec_id E)")
  case True
  then show ?thesis
    by (simp add: undelivered_single consolidateTraces_distinct_keys [OF d])
next
  case False
  note nid = this
  then have u: "undelivered E [r] = [r]" by (simp add: undelivered_single)
  let ?k = "conversationId (length E) r"
  show ?thesis
  proof (cases "?k \<in> set (conv_keys 0 E)")
    case False
    with d have "distinct (conv_keys 0 (E @ [r]))" by (simp add: conv_keys_append)
    then have s: "consolidateTraces (E @ [r]) = E @ [r]" by (rule consolidateTraces_distinct_keys)
    have "undelivered (E @ [r]) [r] = []" by (simp add: undelivered_single)
    with s show ?thesis unfolding u by simp
  next
    case True
    then obtain i where i: "i < length E" and ki: "conv_keys 0 E ! i = ?k"
      by (auto simp: in_set_conv_nth length_conv_keys)
    then have k: "?k = conversationId i (E ! i)" using conv_keys_nth [of i E 0] by simp
    let ?m = "merged (E ! i) r"
    let ?S = "E[i := ?m]"
    have s1: "consolidateTraces (E @ [r]) = ?S"
      using consolidateTraces_join [OF d i k] .
    have ids: "map rec_id ?S = map rec_id E"
      using i by (simp add: map_update merged_id list_update_same_conv)
    then have u2: "undelivered ?S [r] = [r]"
      using nid by (simp add: undelivered_def)
    from a i have ai: "anchored (E ! i)" by (simp add: list_all_length)
    have keys: "conv_keys 0 ?S = conv_keys 0 E"
      using conv_keys_update [of i E 0 ?m] i merged_key [OF ai] by simp
    have d2: "distinct (conv_keys 0 ?S)" using d by (simp only: keys)
    have i2: "i < length ?S" using i by simp
    have k2: "conversationId (length ?S) r = conversationId i (?S ! i)"
      using i k merged_key [OF ai] by simp
    have "consolidateTraces (?S @ [r]) = ?S[i := merged (?S ! i) r]"
      using consolidateTraces_join [OF d2 i2 k2] .
    also have "\<dots> = ?S" using i by (simp add: merged_merged)
    finally show ?thesis unfolding u s1 u2 .
  qed
qed

subsection \<open>The ranges of a candidate\<close>

lemma list_all2_concat:
  "list_all2 (\<lambda>x y. list_all2 P (f x) (g y)) xs ys
     \<Longrightarrow> list_all2 P (concat (map f xs)) (concat (map g ys))"
  by (induction xs ys rule: list_all2_induct) (auto intro: list_all2_appendI)

lemma RangeSchema_candidate:
  "RangeSchema rj = Some r \<Longrightarrow> candidate_bounds rj = Some (range_pair r) \<and> candidate_in_bounds rj"
  by (auto simp: RangeSchema_def required_def candidate_in_bounds_def candidate_bounds_def
      line_number_def json_member_def z_line_def range_pair_def bind_eq_Some_conv
      split: json.splits option.splits if_splits)

lemma ConversationSchema_candidate:
  "ConversationSchema fmt cj = Some c \<Longrightarrow>
     list_all2 (\<lambda>rj r. RangeSchema rj = Some r) (json_elements (json_member ''ranges'' cj)) (ranges c)"
  by (auto simp: ConversationSchema_def required_def json_member_def json_elements_def
      bind_eq_Some_conv split: json.splits option.splits dest!: array_Some)

lemma FileSchema_candidate:
  "FileSchema fmt fj = Some f \<Longrightarrow>
     list_all2 (\<lambda>cj c. ConversationSchema fmt cj = Some c)
       (json_elements (json_member ''conversations'' fj)) (conversations f)"
  by (auto simp: FileSchema_def required_def json_member_def json_elements_def
      bind_eq_Some_conv split: json.splits option.splits dest!: array_Some)

lemma TraceRecordSchema_candidate_files:
  "TraceRecordSchema fmt j = Some t \<Longrightarrow>
     list_all2 (\<lambda>fj f. FileSchema fmt fj = Some f) (json_elements (json_member ''files'' j)) (files t)"
  by (auto simp: TraceRecordSchema_def required_def json_member_def json_elements_def
      bind_eq_Some_conv split: json.splits option.splits dest!: array_Some)

lemma TraceRecordSchema_candidate:
  assumes "TraceRecordSchema fmt j = Some t"
  shows "list_all2 (\<lambda>rj r. RangeSchema rj = Some r) (candidate_ranges j) (all_ranges t)"
proof -
  have "list_all2 (\<lambda>fj f. list_all2 (\<lambda>cj c. ConversationSchema fmt cj = Some c)
          (json_elements (json_member ''conversations'' fj)) (conversations f))
        (json_elements (json_member ''files'' j)) (files t)"
    using TraceRecordSchema_candidate_files [OF assms]
    by (rule list_all2_mono) (rule FileSchema_candidate)
  then have "list_all2 (\<lambda>cj c. ConversationSchema fmt cj = Some c)
      (candidate_conversations j) (trace_conversations t)"
    unfolding candidate_conversations_def trace_conversations_def by (rule list_all2_concat)
  then have "list_all2 (\<lambda>cj c. list_all2 (\<lambda>rj r. RangeSchema rj = Some r)
      (json_elements (json_member ''ranges'' cj)) (ranges c))
      (candidate_conversations j) (trace_conversations t)"
    by (rule list_all2_mono) (rule ConversationSchema_candidate)
  then show ?thesis
    unfolding candidate_ranges_def all_ranges_def by (rule list_all2_concat)
qed

lemma candidate_ranges_accepted:
  "list_all2 (\<lambda>rj r. RangeSchema rj = Some r) js rs \<Longrightarrow>
     list_all candidate_in_bounds js
     \<and> map candidate_bounds js = map (\<lambda>r. Some (range_pair r)) rs
     \<and> list_all range_in_bounds rs"
  by (induction js rs rule: list_all2_induct) (auto dest: RangeSchema_candidate RangeSchema_bounds)

lemma valid_rebound_range:
  "valid_range r \<Longrightarrow> 1 \<le> fst (g r) \<Longrightarrow> 1 \<le> snd (g r) \<Longrightarrow> valid_range (rebound_range g r)"
  by (simp add: valid_range_def rebound_range_def)

lemma valid_rebound:
  assumes "valid_record fmt t"
    and "list_all (\<lambda>r. 1 \<le> fst (g r) \<and> 1 \<le> snd (g r)) (all_ranges t)"
  shows "valid_record fmt (rebound g t)"
  using assms
  by (auto simp: valid_record_def valid_file_def valid_conversation_def rebound_def list_all_iff
      all_ranges_def trace_conversations_def intro!: valid_rebound_range)

lemma rebound_pairs: "map range_pair (all_ranges (rebound g t)) = map g (all_ranges t)"
  by (simp add: all_ranges_def trace_conversations_def rebound_def map_concat comp_def
      rebound_range_def range_pair_def)

subsection \<open>The outcomes of reading a note\<close>

lemma parse_records_array: "parse_records fmt (JArr js) = List.map_filter (TraceRecordSchema fmt) js"
  by (simp add: parse_records_def)

lemma parse_records_other:
  "\<not> isArray j \<Longrightarrow> parse_records fmt j = List.map_filter (TraceRecordSchema fmt) [j]"
  by (cases j) (simp_all add: parse_records_def isArray_def)

lemma read_unparseable:
  "commitSha \<in> commits w \<Longrightarrow> notes_ref w = RefValid \<Longrightarrow> note_of w commitSha = Some Unparseable
     \<Longrightarrow> readTracesFromNotes fmt w commitSha = Inl SyntaxError"
  by (simp add: readTracesFromNotes_def git_notes_show_def read_shown_def note_not_found_def)

lemma read_blank:
  "commitSha \<in> commits w \<Longrightarrow> notes_ref w = RefValid \<Longrightarrow> note_of w commitSha = Some Blank
     \<Longrightarrow> readTracesFromNotes fmt w commitSha = Inr []"
  by (simp add: readTracesFromNotes_def git_notes_show_def read_shown_def)

lemma read_git_failure:
  "git_notes_show w commitSha = Inl e \<Longrightarrow> readTracesFromNotes fmt w commitSha = Inr []"
  by (auto simp: readTracesFromNotes_def git_notes_show_def read_shown_def note_not_found_def
      split: if_splits ref_status.splits option.splits)

lemma git_notes_show_fails:
  "commitSha \<notin> commits w \<or> notes_ref w \<noteq> RefValid \<Longrightarrow> \<exists>e. git_notes_show w commitSha = Inl e"
  by (auto simp: git_notes_show_def split: ref_status.splits)

section \<open>Properties of the notes store\<close>

text \<open>
  C10. Writing an empty list of records is a no-op: \<^verbatim>\<open>writeTracesToNotes\<close> returns at
  once, without reading the note, consolidating or running any git command, so the
  workspace (the notes reference and the note of every revision) is exactly what it was;
  records stored earlier are not consolidated.
\<close>

theorem write_empty_is_noop:
  "writeTracesToNotes fmt commitSha [] w = (Inr (), w)"
  by (simp add: writeTracesToNotes_def)

text \<open>
  C7 (as amended). \<^verbatim>\<open>readTracesFromNotes\<close> returns the empty list, not an error, for a
  revision without a note, and for a note of nothing but white space. When the note
  parses, a JSON array is read as the list of its elements and any other value as the list
  of that one value, so a note that holds a value and a note that holds the array of that
  value read the same; the result is the elements that pass the schema, in their order,
  the others being skipped. A note that is not JSON makes the function throw the
  \<^verbatim>\<open>SyntaxError\<close> of \<^verbatim>\<open>JSON.parse\<close>. A failure of the git command is not thrown on:
  the \<^verbatim>\<open>catch\<close> block returns the empty list when the status or the code of the error is
  1 or 128, and git exits with 128 on every fatal error, so a revision that does not
  resolve and a notes reference that cannot be read give the empty list as well, as the
  example after the witness shows. An error of the subprocess with another status and
  code (the program could not be started) is thrown on as it is.
\<close>

theorem read_tolerance:
  "(note_of w commitSha = None \<longrightarrow> readTracesFromNotes fmt w commitSha = Inr [])
   \<and> (commitSha \<in> commits w \<and> notes_ref w = RefValid \<longrightarrow>
        (note_of w commitSha = Some Blank \<longrightarrow> readTracesFromNotes fmt w commitSha = Inr [])
      \<and> (note_of w commitSha = Some (Doc (JArr js)) \<longrightarrow>
           readTracesFromNotes fmt w commitSha = Inr (List.map_filter (TraceRecordSchema fmt) js))
      \<and> (note_of w commitSha = Some (Doc j) \<and> \<not> isArray j \<longrightarrow>
           readTracesFromNotes fmt w commitSha = Inr (List.map_filter (TraceRecordSchema fmt) [j]))
      \<and> (note_of w commitSha = Some Unparseable \<longrightarrow>
           readTracesFromNotes fmt w commitSha = Inl SyntaxError))
   \<and> (\<not> isArray j \<longrightarrow>
        readTracesFromNotes fmt (w\<lparr>note_of := (note_of w)(commitSha \<mapsto> Doc (JArr [j]))\<rparr>) commitSha
          = readTracesFromNotes fmt (w\<lparr>note_of := (note_of w)(commitSha \<mapsto> Doc j)\<rparr>) commitSha)
   \<and> (commitSha \<notin> commits w \<or> notes_ref w \<noteq> RefValid \<longrightarrow>
        (\<exists>e. git_notes_show w commitSha = Inl e) \<and> readTracesFromNotes fmt w commitSha = Inr [])
   \<and> read_shown fmt (Inl (ExecError st cd))
       = (if st = Some 1 \<or> st = Some 128 \<or> cd = Some (CodeNum 1) \<or> cd = Some (CodeNum 128)
          then Inr [] else Inl (ExecError st cd))"
proof -
  have a: "readTracesFromNotes fmt w commitSha = Inr []" if "note_of w commitSha = None"
    using that by (rule read_no_note)
  have b: "readTracesFromNotes fmt w commitSha = Inr []"
    if "commitSha \<in> commits w" "notes_ref w = RefValid" "note_of w commitSha = Some Blank"
    using that by (rule read_blank)
  have c: "readTracesFromNotes fmt w commitSha = Inr (List.map_filter (TraceRecordSchema fmt) js)"
    if "commitSha \<in> commits w" "notes_ref w = RefValid" "note_of w commitSha = Some (Doc (JArr js))"
    using read_stored [OF that] by (simp only: parse_records_array)
  have d: "readTracesFromNotes fmt w commitSha = Inr (List.map_filter (TraceRecordSchema fmt) [j])"
    if "commitSha \<in> commits w" "notes_ref w = RefValid" "note_of w commitSha = Some (Doc j)"
      "\<not> isArray j"
    using read_stored [OF that(1,2,3)] parse_records_other [OF that(4)] by simp
  have e: "readTracesFromNotes fmt w commitSha = Inl SyntaxError"
    if "commitSha \<in> commits w" "notes_ref w = RefValid" "note_of w commitSha = Some Unparseable"
    using that by (rule read_unparseable)
  have f: "readTracesFromNotes fmt (w\<lparr>note_of := (note_of w)(commitSha \<mapsto> Doc (JArr [j]))\<rparr>) commitSha
      = readTracesFromNotes fmt (w\<lparr>note_of := (note_of w)(commitSha \<mapsto> Doc j)\<rparr>) commitSha"
    if "\<not> isArray j"
    using parse_records_other [OF that, of fmt]
    by (simp add: readTracesFromNotes_def git_notes_show_def read_shown_def parse_records_array
        split: ref_status.split)
  have g: "(\<exists>e. git_notes_show w commitSha = Inl e) \<and> readTracesFromNotes fmt w commitSha = Inr []"
    if "commitSha \<notin> commits w \<or> notes_ref w \<noteq> RefValid"
    using git_notes_show_fails [OF that] read_git_failure by blast
  have h: "read_shown fmt (Inl (ExecError st cd))
       = (if st = Some 1 \<or> st = Some 128 \<or> cd = Some (CodeNum 1) \<or> cd = Some (CodeNum 128)
          then Inr [] else Inl (ExecError st cd))"
    by (simp add: read_shown_def note_not_found_def)
  from a b c d e f g h show ?thesis by blast
qed

theorem read_tolerance_witness:
  "readTracesFromNotes sample_formats fresh_workspace ''c0ffee1'' = Inr []
   \<and> readTracesFromNotes sample_formats (note_workspace Blank) ''c0ffee1'' = Inr []
   \<and> readTracesFromNotes sample_formats
        (note_workspace (Doc (JArr [forward_json, JStr ''x'', backwards_json]))) ''c0ffee1''
       = Inr [forward_record, backwards_record]
   \<and> readTracesFromNotes sample_formats (note_workspace (Doc forward_json)) ''c0ffee1''
       = Inr [forward_record]
   \<and> readTracesFromNotes sample_formats (note_workspace (Doc (JArr [forward_json]))) ''c0ffee1''
       = Inr [forward_record]
   \<and> readTracesFromNotes sample_formats (note_workspace Unparseable) ''c0ffee1'' = Inl SyntaxError
   \<and> readTracesFromNotes sample_formats fresh_workspace ''deadbee'' = Inr []
   \<and> read_shown sample_formats (Inl (ExecError None (Some (CodeStr ''ENOENT''))))
       = Inl (ExecError None (Some (CodeStr ''ENOENT'')))"
proof -
  have w: "''c0ffee1'' \<in> commits (note_workspace b) \<and> notes_ref (note_workspace b) = RefValid
      \<and> note_of (note_workspace b) ''c0ffee1'' = Some b" for b
    by (simp add: note_workspace_def fresh_workspace_def)
  have n: "note_of fresh_workspace ''c0ffee1'' = None" "''deadbee'' \<notin> commits fresh_workspace"
    by (simp_all add: fresh_workspace_def)
  have v: "List.map_filter (TraceRecordSchema sample_formats) [forward_json, JStr ''x'', backwards_json]
      = [forward_record, backwards_record]"
    "List.map_filter (TraceRecordSchema sample_formats) [forward_json] = [forward_record]"
    by code_simp+
  have i: "\<not> isArray forward_json" by code_simp
  have u: "(note_workspace (Doc forward_json))\<lparr>note_of :=
      (note_of (note_workspace (Doc forward_json)))(''c0ffee1'' \<mapsto> Doc (JArr [forward_json]))\<rparr>
      = note_workspace (Doc (JArr [forward_json]))"
    "(note_workspace (Doc forward_json))\<lparr>note_of :=
      (note_of (note_workspace (Doc forward_json)))(''c0ffee1'' \<mapsto> Doc forward_json)\<rparr>
      = note_workspace (Doc forward_json)"
    by (simp_all add: note_workspace_def)
  note r = read_tolerance [where fmt = sample_formats and commitSha = "''c0ffee1''"]
  from r [of fresh_workspace] n
  have 1: "readTracesFromNotes sample_formats fresh_workspace ''c0ffee1'' = Inr []" by blast
  from r [of "note_workspace Blank"] w [of Blank]
  have 2: "readTracesFromNotes sample_formats (note_workspace Blank) ''c0ffee1'' = Inr []" by blast
  from r [of "note_workspace (Doc (JArr [forward_json, JStr ''x'', backwards_json]))"
      "[forward_json, JStr ''x'', backwards_json]"]
    w [of "Doc (JArr [forward_json, JStr ''x'', backwards_json])"]
  have 3: "readTracesFromNotes sample_formats
        (note_workspace (Doc (JArr [forward_json, JStr ''x'', backwards_json]))) ''c0ffee1''
       = Inr (List.map_filter (TraceRecordSchema sample_formats) [forward_json, JStr ''x'', backwards_json])"
    by blast
  from r [of "note_workspace (Doc forward_json)" _ forward_json] w [of "Doc forward_json"] i
  have 4: "readTracesFromNotes sample_formats (note_workspace (Doc forward_json)) ''c0ffee1''
       = Inr (List.map_filter (TraceRecordSchema sample_formats) [forward_json])"
    and 5: "readTracesFromNotes sample_formats ((note_workspace (Doc forward_json))\<lparr>note_of :=
      (note_of (note_workspace (Doc forward_json)))(''c0ffee1'' \<mapsto> Doc (JArr [forward_json]))\<rparr>) ''c0ffee1''
      = readTracesFromNotes sample_formats ((note_workspace (Doc forward_json))\<lparr>note_of :=
      (note_of (note_workspace (Doc forward_json)))(''c0ffee1'' \<mapsto> Doc forward_json)\<rparr>) ''c0ffee1''"
    by blast+
  from r [of "note_workspace Unparseable"] w [of Unparseable]
  have 6: "readTracesFromNotes sample_formats (note_workspace Unparseable) ''c0ffee1'' = Inl SyntaxError"
    by blast
  from read_tolerance [of fresh_workspace "''deadbee''" sample_formats] n
  have 7: "readTracesFromNotes sample_formats fresh_workspace ''deadbee'' = Inr []" by blast
  from read_tolerance [of fresh_workspace "''c0ffee1''" sample_formats _ _ None "Some (CodeStr ''ENOENT'')"]
  have 8: "read_shown sample_formats (Inl (ExecError None (Some (CodeStr ''ENOENT''))))
       = Inl (ExecError None (Some (CodeStr ''ENOENT'')))" by simp
  from 1 2 3 4 5 6 7 8 show ?thesis by (simp only: v u simp_thms)
qed

theorem fatal_git_error_reads_as_empty:
  "''c0ffee1'' \<in> commits broken_workspace
   \<and> notes_ref broken_workspace = RefBroken
   \<and> note_of broken_workspace ''c0ffee1'' = Some (Doc forward_json)
   \<and> git_notes_show broken_workspace ''c0ffee1'' = Inl (ExecError (Some 128) None)
   \<and> readTracesFromNotes sample_formats broken_workspace ''c0ffee1'' = Inr []
   \<and> git_notes_show fresh_workspace ''deadbee'' = Inl (ExecError (Some 128) None)
   \<and> readTracesFromNotes sample_formats fresh_workspace ''deadbee'' = Inr []"
  by (simp add: broken_workspace_def note_workspace_def fresh_workspace_def git_notes_show_def
      readTracesFromNotes_def read_shown_def note_not_found_def)

section \<open>Properties of consolidation\<close>




text \<open>
  C2. Two records with one conversation key are merged into one record that carries the
  identifier of the first; the source says of the timestamp \<^verbatim>\<open>// Keep earliest
  timestamp\<close> and assigns \<^verbatim>\<open>baseTrace.timestamp\<close>, the timestamp of the first record
  of the group. Here the first record of the group is the later one, and the merged
  record carries its timestamp, not the earlier one of the second record.
\<close>

theorem consolidate_keeps_first_timestamp:
  "conversationId 0 late_first = conversationId 1 early_second
   \<and> map (\<lambda>t. (rec_id t, timestamp t)) (consolidateTraces [late_first, early_second])
       = [(''0a0a0a0a-0000-4000-8000-000000000004'', ''2026-01-23T06:30:00Z'')]
   \<and> timestamp early_second = ''2026-01-22T01:15:00Z''
   \<and> earlier (timestamp early_second) (timestamp late_first)"
  by code_simp

section \<open>Properties of the aggregator\<close>

text \<open>
  C9 (as amended). For every list of records, \<^verbatim>\<open>generateReport\<close> adds the number of
  ranges of each conversation to the counter of its contributor type when that type is
  \<^verbatim>\<open>ai\<close>, \<^verbatim>\<open>human\<close> or \<^verbatim>\<open>mixed\<close> (there is no counter for \<^verbatim>\<open>unknown\<close>, which is
  also the type of a conversation without contributor), and to the counter of its model
  when the conversation has a model that is not the empty string; it adds 1 to the
  counter of the record's tool once per record whose tool has a non-empty name,
  whatever the record's files and ranges. \<^verbatim>\<open>totalTraces\<close> is the number of records
  and \<^verbatim>\<open>totalFiles\<close> the number of distinct paths. A model or tool that never occurs
  has no entry.
\<close>

theorem generateReport_counts:
  "totalTraces (generateReport traces) = length traces
   \<and> totalFiles (generateReport traces) = card (path ` set (concat (map files traces)))
   \<and> aiContributions (generateReport traces) = type_ranges Ai (all_conversations traces)
   \<and> humanContributions (generateReport traces) = type_ranges Human (all_conversations traces)
   \<and> mixedContributions (generateReport traces) = type_ranges Mixed (all_conversations traces)
   \<and> map_of (models (generateReport traces)) m =
       (if m \<noteq> [] \<and> list_ex (\<lambda>c. modelId c = Some m) (all_conversations traces)
        then Some (model_ranges m (all_conversations traces)) else None)
   \<and> map_of (tools (generateReport traces)) n =
       (if n \<noteq> [] \<and> 0 < tool_count n traces then Some (tool_count n traces) else None)"
proof -
  let ?init = "(init_stats (length traces), [] :: string list)"
  obtain s seen where f: "foldl count_trace ?init traces = (s, seen)"
    by (cases "foldl count_trace ?init traces")
  have g: "generateReport traces = s\<lparr>totalFiles := length seen\<rparr>"
    using f by (simp add: generateReport_def init_stats_def)
  have s: "s = fst (foldl count_trace ?init traces)" and seen: "seen = snd (foldl count_trace ?init traces)"
    using f by simp_all
  have "distinct seen \<and> set seen = path ` set (concat (map files traces))"
    using foldl_count_trace_seen [of ?init traces] by (simp add: seen)
  then have files: "length seen = card (path ` set (concat (map files traces)))"
    by (metis distinct_card)
  show ?thesis
    unfolding g
    using files
    by (simp add: s foldl_count_trace_ai foldl_count_trace_human foldl_count_trace_mixed
        foldl_count_trace_totalTraces foldl_count_trace_models foldl_count_trace_tools
        init_stats_def counted_def)
qed

theorem unknown_ranges_not_counted:
  "type_ranges Unknown (all_conversations [unknown_only]) = 2
   \<and> aiContributions (generateReport [unknown_only]) = 0
   \<and> humanContributions (generateReport [unknown_only]) = 0
   \<and> mixedContributions (generateReport [unknown_only]) = 0"
  by code_simp

section \<open>Properties of the validator\<close>

text \<open>
  C6 (as amended). Validation succeeds only if every range of the candidate has a
  whole-number \<open>start_line \<ge> 1\<close> and a whole-number \<open>end_line \<ge> 1\<close>, and the ranges of the
  record returned have the bounds of the candidate's ranges, in their order: a candidate
  with a range of which a bound is 0, a fraction or not a number is rejected. The schema
  does not compare the two bounds: whenever a candidate is accepted, so is the serialised
  record with the bounds of its ranges replaced by any bounds that are at least 1, in
  either order. A candidate with a range that ends before it starts is accepted, as the
  example after the witness shows.
\<close>

theorem validated_ranges_in_bounds:
  "(TraceRecordSchema fmt j = Some t \<longrightarrow>
      list_all candidate_in_bounds (candidate_ranges j)
      \<and> map candidate_bounds (candidate_ranges j) = map (\<lambda>r. Some (range_pair r)) (all_ranges t)
      \<and> list_all range_in_bounds (all_ranges t))
   \<and> (list_ex (\<lambda>rj. \<not> candidate_in_bounds rj) (candidate_ranges j) \<longrightarrow> TraceRecordSchema fmt j = None)
   \<and> (TraceRecordSchema fmt j = Some t
        \<and> list_all (\<lambda>r. 1 \<le> fst (g r) \<and> 1 \<le> snd (g r)) (all_ranges t) \<longrightarrow>
      TraceRecordSchema fmt (json_of_TraceRecord (rebound g t)) = Some (rebound g t)
      \<and> map range_pair (all_ranges (rebound g t)) = map g (all_ranges t))"
proof -
  have a: "list_all candidate_in_bounds (candidate_ranges j)
      \<and> map candidate_bounds (candidate_ranges j) = map (\<lambda>r. Some (range_pair r)) (all_ranges t)
      \<and> list_all range_in_bounds (all_ranges t)"
    if "TraceRecordSchema fmt j = Some t" for t
    using TraceRecordSchema_candidate [OF that] by (rule candidate_ranges_accepted)
  have b: "TraceRecordSchema fmt j = None"
    if "list_ex (\<lambda>rj. \<not> candidate_in_bounds rj) (candidate_ranges j)"
  proof (cases "TraceRecordSchema fmt j")
    case None
    then show ?thesis .
  next
    case (Some t')
    from a [OF Some] that show ?thesis by (auto simp: list_all_iff list_ex_iff)
  qed
  have c: "TraceRecordSchema fmt (json_of_TraceRecord (rebound g t)) = Some (rebound g t)"
    if "TraceRecordSchema fmt j = Some t"
      "list_all (\<lambda>r. 1 \<le> fst (g r) \<and> 1 \<le> snd (g r)) (all_ranges t)"
    using that by (intro TraceRecord_roundtrip valid_rebound TraceRecordSchema_valid)
  from a b c rebound_pairs [of g t] show ?thesis by blast
qed

theorem validated_ranges_in_bounds_witness:
  "TraceRecordSchema sample_formats forward_json = Some forward_record
   \<and> list_all candidate_in_bounds (candidate_ranges forward_json)
   \<and> map candidate_bounds (candidate_ranges forward_json) = [Some (1, 50), Some (52, 52)]
   \<and> list_ex (\<lambda>rj. \<not> candidate_in_bounds rj) (candidate_ranges (ex_candidate (JNum 0) (JNum 3)))
   \<and> TraceRecordSchema sample_formats (ex_candidate (JNum 0) (JNum 3)) = None
   \<and> list_ex (\<lambda>rj. \<not> candidate_in_bounds rj) (candidate_ranges (ex_candidate (JNum (3 / 2)) (JNum 3)))
   \<and> TraceRecordSchema sample_formats (ex_candidate (JNum (3 / 2)) (JNum 3)) = None
   \<and> list_ex (\<lambda>rj. \<not> candidate_in_bounds rj) (candidate_ranges (ex_candidate (JNum 3) (JStr ''4'')))
   \<and> TraceRecordSchema sample_formats (ex_candidate (JNum 3) (JStr ''4'')) = None
   \<and> list_all (\<lambda>r. 1 \<le> fst (reversed r) \<and> 1 \<le> snd (reversed r)) (all_ranges forward_record)
   \<and> TraceRecordSchema sample_formats (json_of_TraceRecord (rebound reversed forward_record))
       = Some (rebound reversed forward_record)
   \<and> map range_pair (all_ranges (rebound reversed forward_record)) = [(50, 1), (52, 52)]"
proof -
  have h: "TraceRecordSchema sample_formats forward_json = Some forward_record" by code_simp
  have p: "map (\<lambda>r. Some (range_pair r)) (all_ranges forward_record) = [Some (1, 50), Some (52, 52)]"
    by code_simp
  have z: "list_ex (\<lambda>rj. \<not> candidate_in_bounds rj) (candidate_ranges (ex_candidate (JNum 0) (JNum 3)))"
    by code_simp
  have f: "list_ex (\<lambda>rj. \<not> candidate_in_bounds rj) (candidate_ranges (ex_candidate (JNum (3 / 2)) (JNum 3)))"
    by code_simp
  have s: "list_ex (\<lambda>rj. \<not> candidate_in_bounds rj) (candidate_ranges (ex_candidate (JNum 3) (JStr ''4'')))"
    by code_simp
  have g: "list_all (\<lambda>r. 1 \<le> fst (reversed r) \<and> 1 \<le> snd (reversed r)) (all_ranges forward_record)"
    by code_simp
  have m: "map reversed (all_ranges forward_record) = [(50, 1), (52, 52)]" by code_simp
  note a = validated_ranges_in_bounds [of sample_formats forward_json forward_record reversed]
  note b = validated_ranges_in_bounds [of sample_formats "ex_candidate (JNum 0) (JNum 3)" forward_record reversed]
  note c = validated_ranges_in_bounds [of sample_formats "ex_candidate (JNum (3 / 2)) (JNum 3)" forward_record reversed]
  note d = validated_ranges_in_bounds [of sample_formats "ex_candidate (JNum 3) (JStr ''4'')" forward_record reversed]
  from a h g have 1: "list_all candidate_in_bounds (candidate_ranges forward_json)"
    and 2: "map candidate_bounds (candidate_ranges forward_json)
        = map (\<lambda>r. Some (range_pair r)) (all_ranges forward_record)"
    and 3: "TraceRecordSchema sample_formats (json_of_TraceRecord (rebound reversed forward_record))
        = Some (rebound reversed forward_record)"
    and 4: "map range_pair (all_ranges (rebound reversed forward_record))
        = map reversed (all_ranges forward_record)"
    by blast+
  from b z have 5: "TraceRecordSchema sample_formats (ex_candidate (JNum 0) (JNum 3)) = None" by blast
  from c f have 6: "TraceRecordSchema sample_formats (ex_candidate (JNum (3 / 2)) (JNum 3)) = None" by blast
  from d s have 7: "TraceRecordSchema sample_formats (ex_candidate (JNum 3) (JStr ''4'')) = None" by blast
  from h 1 2 3 4 5 6 7 z f s g p m show ?thesis by (simp only: simp_thms)
qed

theorem backwards_range_is_accepted:
  "TraceRecordSchema sample_formats backwards_json
     = Some (ex_record ''0a0a0a0a-0000-4000-8000-000000000006'' ''2026-01-22T01:15:00Z''
          [\<lparr>path = ''src/a.ts'', conversations = [ex_conv None Ai [ex_range 5 3]]\<rparr>])
   \<and> end_line (ex_range 5 3) < start_line (ex_range 5 3)"
  by code_simp

section \<open>Properties of the diff parser\<close>

text \<open>
  C5 (as amended). In the loop over the lines of the unified diff, for every state of
  the loop: a line beginning with \<^verbatim>\<open>+\<close> and not with \<^verbatim>\<open>+++\<close> is recorded as an added
  line at the cursor, on the first file of the \<^verbatim>\<open>--numstat\<close> list whose path is the
  current file, and the cursor then increments; a line beginning with \<^verbatim>\<open>-\<close> and not
  with \<^verbatim>\<open>---\<close> is recorded there as a removed line at the cursor, which stays. When no
  file of the list has the current file's path, such a line changes nothing: it is not
  recorded and the cursor stays. Every other line that is no file header, does not begin
  with \<^verbatim>\<open>@\<close> and is not blank increments the cursor without being recorded; a blank
  line, and a line that begins with \<^verbatim>\<open>@\<close> but not with \<^verbatim>\<open>@@\<close>, changes nothing.
\<close>

theorem diff_cursor_semantics:
  "(is_added_line added \<and> ds_files st = ys @ f # zs \<and> fc_path f = currentFile st
      \<and> currentFile st \<notin> fc_path ` set ys \<longrightarrow>
        diff_line st added =
          st\<lparr>ds_files := ys @ f\<lparr>changes := changes f @ [\<lparr>line = lineNumber st, change_kind = Added\<rparr>]\<rparr> # zs,
             lineNumber := lineNumber st + 1\<rparr>)
   \<and> (is_removed_line removed \<and> ds_files st = ys @ f # zs \<and> fc_path f = currentFile st
      \<and> currentFile st \<notin> fc_path ` set ys \<longrightarrow>
        diff_line st removed =
          st\<lparr>ds_files := ys @ f\<lparr>changes := changes f @ [\<lparr>line = lineNumber st, change_kind = Removed\<rparr>]\<rparr> # zs\<rparr>)
   \<and> ((is_added_line dl \<or> is_removed_line dl) \<and> currentFile st \<notin> fc_path ` set (ds_files st) \<longrightarrow>
        diff_line st dl = st)
   \<and> (is_other_line other \<and> trim other \<noteq> [] \<longrightarrow>
        diff_line st other = st\<lparr>lineNumber := lineNumber st + 1\<rparr>)
   \<and> (is_other_line blank \<and> trim blank = [] \<longrightarrow> diff_line st blank = st)
   \<and> (startsWith atl ''@'' \<and> \<not> startsWith atl ''@@'' \<longrightarrow> diff_line st atl = st)"
proof -
  have a: "diff_line st added =
      st\<lparr>ds_files := ys @ f\<lparr>changes := changes f @ [\<lparr>line = lineNumber st, change_kind = Added\<rparr>]\<rparr> # zs,
         lineNumber := lineNumber st + 1\<rparr>"
    if "is_added_line added" "ds_files st = ys @ f # zs" "fc_path f = currentFile st"
      "currentFile st \<notin> fc_path ` set ys"
    using that diff_line_added [of added st] push_change_first [of f "currentFile st" ys zs]
    by (simp add: is_added_line_def)
  have r: "diff_line st removed =
      st\<lparr>ds_files := ys @ f\<lparr>changes := changes f @ [\<lparr>line = lineNumber st, change_kind = Removed\<rparr>]\<rparr> # zs\<rparr>"
    if "is_removed_line removed" "ds_files st = ys @ f # zs" "fc_path f = currentFile st"
      "currentFile st \<notin> fc_path ` set ys"
    using that diff_line_removed [of removed st] push_change_first [of f "currentFile st" ys zs]
    by (simp add: is_removed_line_def)
  have n: "diff_line st dl = st"
    if "is_added_line dl \<or> is_removed_line dl" "currentFile st \<notin> fc_path ` set (ds_files st)"
    using that diff_line_added [of dl st] diff_line_removed [of dl st]
      push_change_none [of "currentFile st" "ds_files st"]
    by (auto simp: is_added_line_def is_removed_line_def)
  have o: "diff_line st other = st\<lparr>lineNumber := lineNumber st + 1\<rparr>"
    if "is_other_line other" "trim other \<noteq> []"
    using that diff_line_other [of other st]
    by (simp add: is_other_line_def is_file_header_def is_added_line_def is_removed_line_def)
  have b: "diff_line st blank = st" if "is_other_line blank" "trim blank = []"
    using that diff_line_other [of blank st]
    by (simp add: is_other_line_def is_file_header_def is_added_line_def is_removed_line_def)
  have t: "diff_line st atl = st" if "startsWith atl ''@''" "\<not> startsWith atl ''@@''"
    using that by (auto simp: diff_line_def startsWith_Cons split: list.splits)
  from a r n o b t show ?thesis by blast
qed

theorem diff_cursor_semantics_witness:
  "is_added_line ''+bar'' \<and> is_removed_line ''-foo'' \<and> is_other_line [CHR 0x5C] \<and> is_other_line '' ''
   \<and> diff_line in_hunk ''+bar''
       = \<lparr>ds_files = [listed_file\<lparr>changes := [\<lparr>line = 3, change_kind = Added\<rparr>]\<rparr>],
          currentFile = ''src/a.ts'', lineNumber = 4\<rparr>
   \<and> diff_line in_hunk ''-foo''
       = \<lparr>ds_files = [listed_file\<lparr>changes := [\<lparr>line = 3, change_kind = Removed\<rparr>]\<rparr>],
          currentFile = ''src/a.ts'', lineNumber = 3\<rparr>
   \<and> diff_line (in_hunk\<lparr>currentFile := ''new.ts''\<rparr>) ''+bar'' = in_hunk\<lparr>currentFile := ''new.ts''\<rparr>
   \<and> diff_line in_hunk [CHR 0x5C] = in_hunk\<lparr>lineNumber := 4\<rparr>
   \<and> diff_line in_hunk '' '' = in_hunk
   \<and> diff_line in_hunk ''@x'' = in_hunk"
proof -
  have k: "is_added_line ''+bar''" "is_removed_line ''-foo''" "is_other_line [CHR 0x5C]"
    "is_other_line '' ''" "trim [CHR 0x5C] \<noteq> []" "trim '' '' = []"
    "startsWith ''@x'' ''@''" "\<not> startsWith ''@x'' ''@@''"
    by (simp_all add: is_added_line_def is_removed_line_def is_other_line_def is_file_header_def
        trim_def is_space_def)
  have s: "ds_files in_hunk = [] @ listed_file # []" "fc_path listed_file = currentFile in_hunk"
    "currentFile in_hunk \<notin> fc_path ` set []"
    "currentFile (in_hunk\<lparr>currentFile := ''new.ts''\<rparr>)
       \<notin> fc_path ` set (ds_files (in_hunk\<lparr>currentFile := ''new.ts''\<rparr>))"
    by (simp_all add: in_hunk_def listed_file_def)
  from k s
    diff_cursor_semantics [where added = "''+bar''" and removed = "''-foo''" and st = in_hunk
      and ys = "[]" and f = listed_file and zs = "[]" and other = "[CHR 0x5C]" and blank = "'' ''"
      and atl = "''@x''"]
    diff_cursor_semantics [where dl = "''+bar''" and st = "in_hunk\<lparr>currentFile := ''new.ts''\<rparr>"]
  show ?thesis by (simp add: in_hunk_def listed_file_def)
qed

theorem added_line_of_unlisted_file_is_dropped:
  "getCommitInfo ''c0ffee1'' rename_output = Inr [renamed_file]
   \<and> changes renamed_file = []
   \<and> is_added_line ''+bar''
   \<and> diff_line \<lparr>ds_files = [renamed_file], currentFile = ''new.ts'', lineNumber = 3\<rparr> ''+bar''
       = \<lparr>ds_files = [renamed_file], currentFile = ''new.ts'', lineNumber = 3\<rparr>"
  by code_simp

section \<open>Properties of the matcher\<close>




section \<open>Properties of the staging buffer\<close>

text \<open>
  C8 (as amended). Let the staging file exist with at least one line that parses and
  validates, and let \<^verbatim>\<open>HEAD\<close> resolve to a revision. Then \<^verbatim>\<open>attachStagingTraces\<close>
  succeeds; the records it hands to the notes store are exactly those of the valid
  lines, in their order, a line that does not parse or validate being skipped; each
  record that has a \<^verbatim>\<open>vcs\<close> field has its revision replaced by the target revision (a
  record without the field stays without); the note of the target revision becomes the
  consolidation of the records stored there followed by the staged records whose
  identifier is not stored yet; and the staging file is removed. When nothing is stored
  for the revision and the staged records have different identifiers and different
  conversation keys, the note holds exactly the staged records; staged records that share
  a conversation key are merged into one.
\<close>

theorem staging_drain:
  assumes "staging w = Some content" and "head w = Some commitSha" and "commitSha \<in> commits w"
    and "List.map_filter (line_record fmt) content \<noteq> []"
  shows "staging_traces fmt commitSha (filter (\<lambda>l. l \<noteq> Blank) content)
      = map (set_revision commitSha) (List.map_filter (line_record fmt) content)
    \<and> attachStagingTraces fmt w =
        (Inr (), (repaired w)\<lparr>note_of := (note_of (repaired w))(commitSha \<mapsto>
            note_for (consolidateTraces
              (stored_records fmt (repaired w) commitSha
               @ undelivered (stored_records fmt (repaired w) commitSha)
                   (map (set_revision commitSha) (List.map_filter (line_record fmt) content))))),
          staging := None\<rparr>)
    \<and> (stored_records fmt (repaired w) commitSha = []
        \<and> distinct (map rec_id (List.map_filter (line_record fmt) content))
        \<and> distinct (conv_keys 0 (map (set_revision commitSha) (List.map_filter (line_record fmt) content)))
        \<longrightarrow> note_of (snd (attachStagingTraces fmt w)) commitSha
             = Some (note_for (map (set_revision commitSha) (List.map_filter (line_record fmt) content))))"
proof -
  let ?traces = "map (set_revision commitSha) (List.map_filter (line_record fmt) content)"
  have t: "staging_traces fmt commitSha (filter (\<lambda>l. l \<noteq> Blank) content) = ?traces"
    by (simp add: staging_traces_eq map_filter_non_blank)
  from assms(4) have ne: "?traces \<noteq> []" by simp
  have w: "writeTracesToNotes fmt commitSha ?traces (repaired w) =
    (Inr (), (repaired w)\<lparr>note_of := (note_of (repaired w))(commitSha \<mapsto>
       note_for (consolidateTraces (stored_records fmt (repaired w) commitSha
                   @ undelivered (stored_records fmt (repaired w) commitSha) ?traces)))\<rparr>)"
    using write_eq [OF ne, of commitSha "repaired w" fmt] assms(3) by (simp add: repaired_fields)
  have a: "attachStagingTraces fmt w =
        (Inr (), (repaired w)\<lparr>note_of := (note_of (repaired w))(commitSha \<mapsto>
            note_for (consolidateTraces
              (stored_records fmt (repaired w) commitSha
               @ undelivered (stored_records fmt (repaired w) commitSha) ?traces))),
          staging := None\<rparr>)"
    using assms(1,2) ne
    by (simp add: attachStagingTraces_def ensureNotesRef_eq repaired_fields t w Let_def)
  have f: "note_of (snd (attachStagingTraces fmt w)) commitSha = Some (note_for ?traces)"
    if "stored_records fmt (repaired w) commitSha = []"
      "distinct (map rec_id (List.map_filter (line_record fmt) content))"
      "distinct (conv_keys 0 ?traces)"
    using that by (simp add: a undelivered_def consolidateTraces_distinct_keys)
  from t a f show ?thesis by blast
qed

theorem staging_drain_witness:
  "staging staged_apart
     = Some [Doc (json_of_TraceRecord staged_a), Unparseable, Doc (json_of_TraceRecord staged_c)]
   \<and> head staged_apart = Some ''c0ffee1'' \<and> ''c0ffee1'' \<in> commits staged_apart
   \<and> List.map_filter (line_record sample_formats)
        [Doc (json_of_TraceRecord staged_a), Unparseable, Doc (json_of_TraceRecord staged_c)]
      = [staged_a, staged_c]
   \<and> fst (attachStagingTraces sample_formats staged_apart) = Inr ()
   \<and> staging (snd (attachStagingTraces sample_formats staged_apart)) = None
   \<and> note_of (snd (attachStagingTraces sample_formats staged_apart)) ''c0ffee1''
       = Some (note_for [set_revision ''c0ffee1'' staged_a, staged_c])
   \<and> readTracesFromNotes sample_formats (snd (attachStagingTraces sample_formats staged_apart)) ''c0ffee1''
       = Inr [staged_a\<lparr>vcs := Some \<lparr>vcs_type = Git, revision = ''c0ffee1''\<rparr>\<rparr>, staged_c]"
proof -
  let ?content = "[Doc (json_of_TraceRecord staged_a), Unparseable, Doc (json_of_TraceRecord staged_c)]"
  have h1: "staging staged_apart = Some ?content"
    and h2: "head staged_apart = Some ''c0ffee1''" and h3: "''c0ffee1'' \<in> commits staged_apart"
    by (simp_all add: staged_apart_def fresh_workspace_def)
  have v: "List.map_filter (line_record sample_formats) ?content = [staged_a, staged_c]"
    by code_simp
  then have h4: "List.map_filter (line_record sample_formats) ?content \<noteq> []" by simp
  have s: "stored_records sample_formats (repaired staged_apart) ''c0ffee1'' = []"
    by code_simp
  have d: "distinct (map rec_id [staged_a, staged_c])"
    "distinct (conv_keys 0 (map (set_revision ''c0ffee1'') [staged_a, staged_c]))"
    by code_simp+
  have r: "set_revision ''c0ffee1'' staged_c = staged_c"
    "set_revision ''c0ffee1'' staged_a = staged_a\<lparr>vcs := Some \<lparr>vcs_type = Git, revision = ''c0ffee1''\<rparr>\<rparr>"
    by (simp_all add: set_revision_def staged_c_def staged_b_def staged_a_def)
  have rd: "readTracesFromNotes sample_formats (snd (attachStagingTraces sample_formats staged_apart)) ''c0ffee1''
       = Inr [staged_a\<lparr>vcs := Some \<lparr>vcs_type = Git, revision = ''c0ffee1''\<rparr>\<rparr>, staged_c]"
    by code_simp
  note sd = staging_drain [OF h1 h2 h3 h4]
  from sd [THEN conjunct2, THEN conjunct1]
  have f: "fst (attachStagingTraces sample_formats staged_apart) = Inr ()"
    and g: "staging (snd (attachStagingTraces sample_formats staged_apart)) = None"
    by simp_all
  from sd [THEN conjunct2, THEN conjunct2] s d
  have "note_of (snd (attachStagingTraces sample_formats staged_apart)) ''c0ffee1''
       = Some (note_for (map (set_revision ''c0ffee1'') [staged_a, staged_c]))"
    by (simp only: v simp_thms)
  then have n: "note_of (snd (attachStagingTraces sample_formats staged_apart)) ''c0ffee1''
       = Some (note_for [set_revision ''c0ffee1'' staged_a, staged_c])"
    by (simp add: r)
  from h1 h2 h3 v f g n rd show ?thesis by blast
qed

theorem two_staged_lines_one_record:
  "staging staged_same
     = Some [Doc (json_of_TraceRecord staged_a), Doc (json_of_TraceRecord staged_b), Unparseable]
   \<and> List.map_filter (line_record sample_formats)
        [Doc (json_of_TraceRecord staged_a), Doc (json_of_TraceRecord staged_b), Unparseable]
      = [staged_a, staged_b]
   \<and> fst (attachStagingTraces sample_formats staged_same) = Inr ()
   \<and> staging (snd (attachStagingTraces sample_formats staged_same)) = None
   \<and> map rec_id (stored_records sample_formats (snd (attachStagingTraces sample_formats staged_same)) ''c0ffee1'')
       = [''0a0a0a0a-0000-4000-8000-00000000000a'']"
  by code_simp

section \<open>Writing the same record twice\<close>

text \<open>
  C1 (as amended). Let the revision exist, let the records stored for it have pairwise
  different conversation keys and each a conversation in its first file entry, and let
  \<open>r\<close> be a record that validates. Then writing \<open>[r]\<close> to the revision a second time
  returns what the first write returned and leaves the workspace, hence the note and the
  stored records, as the first write left them; and the records stored after the first
  write are the consolidation of the stored records followed by \<open>r\<close>, when its identifier
  was not stored. On the second write \<open>r\<close> is dropped when its identifier is stored;
  when the first write merged it into an earlier record of its conversation, under that
  record's identifier, it is merged again and changes nothing. Without the condition on
  the stored records the second write can add a record, as the example after the witness
  shows: there the first write gives the stored record a conversation in its first file
  entry, and with it another conversation key.
\<close>

theorem write_twice_is_write_once:
  assumes "commitSha \<in> commits w"
    and "valid_record fmt r"
    and "list_all anchored (stored_records fmt w commitSha)"
    and "distinct (conv_keys 0 (stored_records fmt w commitSha))"
  shows "writeTracesToNotes fmt commitSha [r] (snd (writeTracesToNotes fmt commitSha [r] w))
      = writeTracesToNotes fmt commitSha [r] w
    \<and> stored_records fmt (snd (writeTracesToNotes fmt commitSha [r] w)) commitSha
      = consolidateTraces (stored_records fmt w commitSha
                           @ undelivered (stored_records fmt w commitSha) [r])"
proof -
  let ?E = "stored_records fmt w commitSha"
  let ?S = "consolidateTraces (?E @ undelivered ?E [r])"
  let ?w1 = "(repaired w)\<lparr>note_of := (note_of (repaired w))(commitSha \<mapsto> note_for ?S)\<rparr>"
  have w1: "writeTracesToNotes fmt commitSha [r] w = (Inr (), ?w1)"
    using write_eq [of "[r]" commitSha w fmt] assms(1) by simp
  have "list_all (valid_record fmt) (?E @ undelivered ?E [r])"
    using stored_records_valid [of fmt w commitSha] assms(2) by (simp add: undelivered_single)
  then have v: "list_all (valid_record fmt) ?S" by (rule consolidateTraces_valid)
  have f: "commitSha \<in> commits ?w1" "notes_ref ?w1 = RefValid"
    "note_of ?w1 commitSha = Some (note_for ?S)" "repaired ?w1 = ?w1"
    using assms(1) by (simp_all add: repaired_def)
  have s: "stored_records fmt ?w1 commitSha = ?S"
    using stored_records_note_for [OF f(1,2,3) v] .
  have "writeTracesToNotes fmt commitSha [r] ?w1 =
      (Inr (), (repaired ?w1)\<lparr>note_of := (note_of (repaired ?w1))(commitSha \<mapsto>
         note_for (consolidateTraces (?S @ undelivered ?S [r])))\<rparr>)"
    using write_eq [of "[r]" commitSha ?w1 fmt] f(1) by (simp only: s) simp
  also have "consolidateTraces (?S @ undelivered ?S [r]) = ?S"
    using consolidate_redelivery [OF assms(4,3)] .
  also have "(repaired ?w1)\<lparr>note_of := (note_of (repaired ?w1))(commitSha \<mapsto> note_for ?S)\<rparr> = ?w1"
    by (simp add: repaired_def)
  finally have "writeTracesToNotes fmt commitSha [r] ?w1 = (Inr (), ?w1)" .
  with w1 s show ?thesis by simp
qed

theorem write_twice_is_write_once_witness:
  "''c0ffee1'' \<in> commits session_workspace
   \<and> valid_record sample_formats early_second
   \<and> stored_records sample_formats session_workspace ''c0ffee1'' = [late_first]
   \<and> list_all anchored [late_first] \<and> distinct (conv_keys 0 [late_first])
   \<and> writeTracesToNotes sample_formats ''c0ffee1'' [early_second]
        (snd (writeTracesToNotes sample_formats ''c0ffee1'' [early_second] session_workspace))
      = writeTracesToNotes sample_formats ''c0ffee1'' [early_second] session_workspace
   \<and> stored_records sample_formats
        (snd (writeTracesToNotes sample_formats ''c0ffee1'' [early_second] session_workspace)) ''c0ffee1''
      = [merged late_first early_second]
   \<and> map rec_id [merged late_first early_second] = [''0a0a0a0a-0000-4000-8000-000000000004'']"
proof -
  have h1: "''c0ffee1'' \<in> commits session_workspace"
    by (simp add: session_workspace_def fresh_workspace_def)
  have h2: "valid_record sample_formats early_second" by code_simp
  have e: "stored_records sample_formats session_workspace ''c0ffee1'' = [late_first]" by code_simp
  have h3: "list_all anchored [late_first]" by code_simp
  have h4: "distinct (conv_keys 0 [late_first])" by simp
  have c: "consolidateTraces ([late_first] @ undelivered [late_first] [early_second])
      = [merged late_first early_second]" by code_simp
  have i: "map rec_id [merged late_first early_second] = [''0a0a0a0a-0000-4000-8000-000000000004'']"
    by code_simp
  from write_twice_is_write_once [of "''c0ffee1''" session_workspace sample_formats early_second]
    h1 h2 h3 h4 e c i
  show ?thesis by simp
qed

theorem second_write_adds_record:
  "valid_record sample_formats drift_r
   \<and> stored_records sample_formats drift_workspace ''c0ffee1'' = [drift_a]
   \<and> map rec_id (stored_records sample_formats
        (snd (writeTracesToNotes sample_formats ''c0ffee1'' [drift_r] drift_workspace)) ''c0ffee1'')
      = [''0a0a0a0a-0000-4000-8000-00000000000c'']
   \<and> map rec_id (stored_records sample_formats
        (snd (writeTracesToNotes sample_formats ''c0ffee1'' [drift_r]
          (snd (writeTracesToNotes sample_formats ''c0ffee1'' [drift_r] drift_workspace)))) ''c0ffee1'')
      = [''0a0a0a0a-0000-4000-8000-00000000000c'', ''0a0a0a0a-0000-4000-8000-00000000000d'']"
  by code_simp

end
